theory Spec2Isabelle
  imports Complex_Main "HOL-Library.Multiset"
begin

section \<open>Pedigree graph\<close>

text \<open>
  An \<open>Animal\<close> object holds its identifier and two references, \<open>parent1\<close> (mother) and
  \<open>parent2\<close> (father), each possibly \<open>null\<close>.  A \<open>BreedingPlanner\<close> keeps one object per
  identifier in \<open>animalMap\<close>, so a reference to an animal is modelled by its identifier and
  the object graph by the association list of the map (in insertion order).
  Coefficients are JavaScript numbers; they are modelled as real numbers.
\<close>

type_synonym ident = string

record animal =
  parent1 :: "ident option"
  parent2 :: "ident option"

type_synonym pedigree = "(ident \<times> animal) list"

definition getParent1 :: "pedigree \<Rightarrow> ident \<Rightarrow> ident option" where
  "getParent1 g x = (case map_of g x of None \<Rightarrow> None | Some a \<Rightarrow> parent1 a)"

definition getParent2 :: "pedigree \<Rightarrow> ident \<Rightarrow> ident option" where
  "getParent2 g x = (case map_of g x of None \<Rightarrow> None | Some a \<Rightarrow> parent2 a)"

text \<open>The identifiers that occur as a parent of some animal of the map.\<close>

definition pnodes :: "pedigree \<Rightarrow> ident set" where
  "pnodes g = {p. \<exists>x a. (x, a) \<in> set g \<and> (parent1 a = Some p \<or> parent2 a = Some p)}"

text \<open>\<open>Set.prototype.add\<close> on a set kept in insertion order.\<close>

definition set_add :: "'a list \<Rightarrow> 'a \<Rightarrow> 'a list" where
  "set_add xs x = (if x \<in> set xs then xs else xs @ [x])"

subsection \<open>getAncestors: breadth-first traversal\<close>

text \<open>
  One parent slot of the loop body:
  \<^verbatim>\<open>if (p && !visited.has(p.id)) { queue.push(p); visited.add(p.id); }\<close>
\<close>

definition enqueue :: "ident option \<Rightarrow> ident list \<times> ident set \<Rightarrow> ident list \<times> ident set" where
  "enqueue po qv = (case po of None \<Rightarrow> qv
     | Some p \<Rightarrow> (if p \<in> snd qv then qv else (fst qv @ [p], insert p (snd qv))))"

function bfsLoop :: "pedigree \<Rightarrow> ident list \<Rightarrow> ident set \<Rightarrow> ident list \<Rightarrow> ident list" where
  "bfsLoop g [] visited ancestors = ancestors"
| "bfsLoop g (current # queue) visited ancestors =
     (let qv = enqueue (getParent2 g current) (enqueue (getParent1 g current) (queue, visited))
      in bfsLoop g (fst qv) (snd qv) (set_add ancestors current))"
  by pat_completeness auto

text \<open>The first lines of \<open>getAncestors\<close>: the parents that exist are pushed unconditionally.\<close>

definition initQueue :: "pedigree \<Rightarrow> ident \<Rightarrow> ident list" where
  "initQueue g x = (case getParent1 g x of None \<Rightarrow> [] | Some p \<Rightarrow> [p])
                 @ (case getParent2 g x of None \<Rightarrow> [] | Some p \<Rightarrow> [p])"

lemma finite_pnodes: "finite (pnodes g)"
proof -
  have "pnodes g \<subseteq> (\<Union>(x,a) \<in> set g. set_option (parent1 a) \<union> set_option (parent2 a))"
    by (auto simp: pnodes_def)
  moreover have "finite (\<Union>(x,a) \<in> set g. set_option (parent1 a) \<union> set_option (parent2 a))"
    by auto
  ultimately show ?thesis by (rule finite_subset)
qed

lemma getParent1_pnodes: "getParent1 g x = Some p \<Longrightarrow> p \<in> pnodes g"
  by (auto simp: getParent1_def pnodes_def split: option.splits dest: map_of_SomeD)

lemma getParent2_pnodes: "getParent2 g x = Some p \<Longrightarrow> p \<in> pnodes g"
  by (auto simp: getParent2_def pnodes_def split: option.splits dest: map_of_SomeD)

definition bfsMeasure :: "pedigree \<Rightarrow> ident list \<times> ident set \<Rightarrow> nat" where
  "bfsMeasure g qv = 2 * card (pnodes g - snd qv) + length (fst qv)"

lemma enqueue_measure:
  "po = None \<or> (\<exists>p. po = Some p \<and> p \<in> pnodes g) \<Longrightarrow> bfsMeasure g (enqueue po qv) \<le> bfsMeasure g qv"
proof (cases po)
  case None
  then show ?thesis by (simp add: enqueue_def)
next
  case (Some p)
  assume "po = None \<or> (\<exists>p. po = Some p \<and> p \<in> pnodes g)"
  with Some have pin: "p \<in> pnodes g" by simp
  show ?thesis
  proof (cases "p \<in> snd qv")
    case True
    with Some show ?thesis by (simp add: enqueue_def)
  next
    case False
    have "pnodes g - insert p (snd qv) = (pnodes g - snd qv) - {p}" by auto
    moreover have "p \<in> pnodes g - snd qv" using pin False by simp
    ultimately have "card (pnodes g - insert p (snd qv)) < card (pnodes g - snd qv)"
      using finite_pnodes[of g] card_Diff1_less[of "pnodes g - snd qv" p] by simp
    with Some False show ?thesis by (simp add: enqueue_def bfsMeasure_def)
  qed
qed

termination bfsLoop
proof (relation "measure (\<lambda>(g, q, v, a). bfsMeasure g (q, v))", goal_cases)
  case 1
  show ?case by simp
next
  case (2 g current queue visited ancestors qv)
  have a: "bfsMeasure g (enqueue (getParent1 g current) (queue, visited)) \<le> bfsMeasure g (queue, visited)"
    by (rule enqueue_measure) (cases "getParent1 g current"; simp add: getParent1_pnodes)
  have b: "bfsMeasure g qv \<le> bfsMeasure g (enqueue (getParent1 g current) (queue, visited))"
    unfolding 2 by (rule enqueue_measure) (cases "getParent2 g current"; simp add: getParent2_pnodes)
  have "bfsMeasure g (queue, visited) < bfsMeasure g (current # queue, visited)"
    by (simp add: bfsMeasure_def)
  with a b show ?case by simp
qed

text \<open>
  \<open>getAncestors\<close> as in the full-accumulation variants (no cache; strict pairing; cached):
  \<open>visited\<close> starts with the parents only.
\<close>

definition getAncestors :: "pedigree \<Rightarrow> ident \<Rightarrow> ident list" where
  "getAncestors g x = bfsLoop g (initQueue g x) (set (initQueue g x)) []"

text \<open>
  \<open>getAncestors\<close> of the independent-path variant: \<open>visited\<close> starts as
  \<^verbatim>\<open>new Set([this.id])\<close>.
\<close>

definition getAncestorsV1 :: "pedigree \<Rightarrow> ident \<Rightarrow> ident list" where
  "getAncestorsV1 g x = bfsLoop g (initQueue g x) (insert x (set (initQueue g x))) []"

subsection \<open>Path enumeration: iterative depth-first search\<close>

text \<open>
  A \<open>PathNode\<close> is an animal with the path that led to it.  The stack is a list whose
  head is the top (\<open>push\<close> is \<open>#\<close>, \<open>pop\<close> takes the head).  \<open>equals\<close> compares
  identifiers.
\<close>

type_synonym pathNode = "ident \<times> ident list"

definition processParentForDFS ::
  "ident option \<Rightarrow> ident \<Rightarrow> ident list \<Rightarrow> ident list list \<times> pathNode list
     \<Rightarrow> ident list list \<times> pathNode list" where
  "processParentForDFS po target currentPath ps = (case po of None \<Rightarrow> ps
     | Some p \<Rightarrow>
        (if p = target then (fst ps @ [currentPath @ [p]], snd ps)
         else if p \<notin> set currentPath then (fst ps, (p, currentPath @ [p]) # snd ps)
         else ps))"

function dfsLoop :: "pedigree \<Rightarrow> ident \<Rightarrow> pathNode list \<Rightarrow> ident list list \<Rightarrow> ident list list" where
  "dfsLoop g target [] paths = paths"
| "dfsLoop g target ((currentAnimal, currentPath) # stack) paths =
     (let ps = processParentForDFS (getParent2 g currentAnimal) target currentPath
                 (processParentForDFS (getParent1 g currentAnimal) target currentPath (paths, stack))
      in dfsLoop g target (snd ps) (fst ps))"
  by pat_completeness auto

definition pathWeight :: "pedigree \<Rightarrow> pathNode \<Rightarrow> nat" where
  "pathWeight g pn = 3 ^ card (pnodes g - set (snd pn))"

definition stackWeight :: "pedigree \<Rightarrow> pathNode list \<Rightarrow> nat" where
  "stackWeight g stack = sum_list (map (pathWeight g) stack)"

lemma pathWeight_pos: "0 < pathWeight g pn"
  by (simp add: pathWeight_def)

lemma pathWeight_push:
  assumes "p \<in> pnodes g" "p \<notin> set path"
  shows "3 * pathWeight g (p, path @ [p]) \<le> pathWeight g (a, path)"
proof -
  have "pnodes g - set (path @ [p]) = (pnodes g - set path) - {p}" by auto
  moreover have "p \<in> pnodes g - set path" using assms by simp
  ultimately have "card (pnodes g - set (path @ [p])) < card (pnodes g - set path)"
    using finite_pnodes[of g] card_Diff1_less[of "pnodes g - set path" p] by simp
  then have "Suc (card (pnodes g - set (path @ [p]))) \<le> card (pnodes g - set path)" by simp
  then have "(3::nat) ^ Suc (card (pnodes g - set (path @ [p]))) \<le> 3 ^ card (pnodes g - set path)"
    by (rule power_increasing) simp
  then show ?thesis by (simp add: pathWeight_def)
qed

lemma processParent_weight:
  assumes "po = None \<or> (\<exists>p. po = Some p \<and> p \<in> pnodes g)"
  shows "3 * stackWeight g (snd (processParentForDFS po t path ps))
           \<le> 3 * stackWeight g (snd ps) + pathWeight g (a, path)"
proof (cases po)
  case None
  then show ?thesis by (simp add: processParentForDFS_def)
next
  case (Some p)
  with assms have "p \<in> pnodes g" by simp
  from pathWeight_push[OF this, of path a] Some show ?thesis
    by (auto simp: processParentForDFS_def stackWeight_def)
qed

termination dfsLoop
proof (relation "measure (\<lambda>(g, t, stack, paths). stackWeight g stack)", goal_cases)
  case 1
  show ?case by simp
next
  case (2 g target currentAnimal currentPath stack paths ps)
  let ?ps1 = "processParentForDFS (getParent1 g currentAnimal) target currentPath (paths, stack)"
  have a: "3 * stackWeight g (snd ?ps1) \<le> 3 * stackWeight g stack + pathWeight g (currentAnimal, currentPath)"
    using processParent_weight[of "getParent1 g currentAnimal" g target currentPath "(paths, stack)" currentAnimal]
    by (cases "getParent1 g currentAnimal") (simp_all add: getParent1_pnodes)
  have b: "3 * stackWeight g (snd ps) \<le> 3 * stackWeight g (snd ?ps1) + pathWeight g (currentAnimal, currentPath)"
    unfolding 2
    using processParent_weight[of "getParent2 g currentAnimal" g target currentPath ?ps1 currentAnimal]
    by (cases "getParent2 g currentAnimal") (simp_all add: getParent2_pnodes)
  have "0 < pathWeight g (currentAnimal, currentPath)" by (rule pathWeight_pos)
  with a b have "stackWeight g (snd ps) < stackWeight g stack + pathWeight g (currentAnimal, currentPath)"
    by linarith
  then show ?case by (simp add: stackWeight_def)
qed

text \<open>\<open>_findPathsToAncestorDFS\<close>: the trivial path when start and target are equal.\<close>

definition findPathsToAncestorDFS :: "pedigree \<Rightarrow> ident \<Rightarrow> ident \<Rightarrow> ident list list" where
  "findPathsToAncestorDFS g start target =
     (if start = target then [[start]] else dfsLoop g target [(start, [start])] [])"

section \<open>Relatedness engine without memoization\<close>

text \<open>
  The calculator of the strict-pairing file and of the no-cache file (their
  \<open>RelatednessCalculator\<close> classes are the same text).  Its only state is the set
  \<open>currentlyCalculatingF\<close>: \<open>calculateInbreeding\<close> adds the identifier after checking
  that it is absent and deletes it before returning, so the set on return is the set on
  entry and it is passed down as the argument \<open>guard\<close>.  A \<open>null\<close> animal is \<open>None\<close>.
\<close>

definition commonAncestorsOf :: "ident list \<Rightarrow> ident list \<Rightarrow> ident list" where
  "commonAncestorsOf ancestors1 ancestors2 =
     foldl (\<lambda>common ancestor. if ancestor \<in> set ancestors2 then set_add common ancestor else common)
       [] ancestors1"

text \<open>The two inner loops over \<open>paths1\<close> and \<open>paths2\<close>, adding to \<open>totalF\<close>.\<close>

definition contribution :: "real \<Rightarrow> ident list \<Rightarrow> ident list \<Rightarrow> real" where
  "contribution fAncestor path1 path2 =
     (let n1 = length path1 - 1; n2 = length path2 - 1; exponent = n1 + n2 + 1
      in (1/2) ^ exponent * (1 + fAncestor))"

definition addPathPairs :: "real \<Rightarrow> ident list list \<Rightarrow> ident list list \<Rightarrow> real \<Rightarrow> real" where
  "addPathPairs fAncestor paths1 paths2 totalF =
     foldl (\<lambda>t path1. foldl (\<lambda>t' path2. t' + contribution fAncestor path1 path2) t paths2)
       totalF paths1"

function calculateInbreeding :: "pedigree \<Rightarrow> ident set \<Rightarrow> ident option \<Rightarrow> real"
  and calculateOffspringInbreeding :: "pedigree \<Rightarrow> ident set \<Rightarrow> ident option \<Rightarrow> ident option \<Rightarrow> real"
where
  "calculateInbreeding g guard None = 0"
| "calculateInbreeding g guard (Some a) =
     (if a \<in> guard then 0
      else (case getParent1 g a of None \<Rightarrow> 0
            | Some p1 \<Rightarrow> (case getParent2 g a of None \<Rightarrow> 0
               | Some p2 \<Rightarrow> calculateOffspringInbreeding g (insert a guard) (Some p1) (Some p2))))"
| "calculateOffspringInbreeding g guard None q = 0"
| "calculateOffspringInbreeding g guard (Some p1) None = 0"
| "calculateOffspringInbreeding g guard (Some p1) (Some p2) =
     (let ancestors1 = set_add (getAncestors g p1) p1;
          ancestors2 = set_add (getAncestors g p2) p2
      in foldl (\<lambda>totalF ancestor.
              addPathPairs (calculateInbreeding g guard (Some ancestor))
                (findPathsToAncestorDFS g p1 ancestor) (findPathsToAncestorDFS g p2 ancestor) totalF)
           0 (commonAncestorsOf ancestors1 ancestors2))"
  by pat_completeness auto

lemma getParent1_key: "getParent1 g x = Some p \<Longrightarrow> x \<in> fst ` set g"
  by (auto simp: getParent1_def split: option.splits dest: map_of_SomeD intro: rev_image_eqI)

definition guardMeasure :: "pedigree \<Rightarrow> ident set \<Rightarrow> nat" where
  "guardMeasure g guard = card (fst ` set g - guard)"

lemma guardMeasure_insert:
  assumes "getParent1 g a = Some p" "a \<notin> guard"
  shows "guardMeasure g (insert a guard) < guardMeasure g guard"
proof -
  have "fst ` set g - insert a guard = (fst ` set g - guard) - {a}" by auto
  moreover have "a \<in> fst ` set g - guard" using assms getParent1_key by simp
  ultimately show ?thesis
    using card_Diff1_less[of "fst ` set g - guard" a] by (simp add: guardMeasure_def)
qed

termination calculateInbreeding
proof (relation "measure (\<lambda>x. case x of Inl (g, guard, a) \<Rightarrow> 2 * guardMeasure g guard
                                 | Inr (g, guard, p, q) \<Rightarrow> 2 * guardMeasure g guard + 1)", goal_cases)
  case 1
  show ?case by simp
next
  case 2
  then show ?case by (auto dest!: guardMeasure_insert)
next
  case 3
  show ?case by simp
qed

section \<open>Basic facts about the engine\<close>

text \<open>The weight of a list of paths: the sum of \<open>(1/2) ^ (length - 1)\<close> over its paths.\<close>

definition pathsWeight :: "ident list list \<Rightarrow> real" where
  "pathsWeight ps = sum_list (map (\<lambda>p. (1/2) ^ (length p - 1)) ps)"

lemma pathsWeight_nonneg: "0 \<le> pathsWeight ps"
  unfolding pathsWeight_def by (rule sum_list_nonneg) auto

lemma foldl_add_sum_list:
  "foldl (\<lambda>t x. t + h x) t xs = t + sum_list (map h xs)" for t :: real
  by (induction xs arbitrary: t) (simp_all add: algebra_simps)

lemma contribution_eq:
  "contribution f path1 path2
     = (1/2) ^ (length path1 - 1) * ((1/2) ^ (length path2 - 1) * ((1 + f) / 2))"
  by (simp add: contribution_def power_add)

lemma sum_list_const_mult: "sum_list (map (\<lambda>x. c * h x) xs) = c * sum_list (map h xs)" for c :: real
  by (induction xs) (simp_all add: distrib_left)

lemma sum_list_mult_const': "sum_list (map (\<lambda>x. h x * c) xs) = sum_list (map h xs) * c" for c :: real
  by (induction xs) (simp_all add: distrib_right)

lemma inner_pairs:
  "foldl (\<lambda>t' path2. t' + contribution f path1 path2) t paths2
     = t + (1/2) ^ (length path1 - 1) * (pathsWeight paths2 * ((1 + f) / 2))"
  unfolding foldl_add_sum_list contribution_eq sum_list_const_mult sum_list_mult_const' pathsWeight_def
  by (rule refl)

lemma addPathPairs_closed:
  "addPathPairs f paths1 paths2 t = t + pathsWeight paths1 * pathsWeight paths2 * ((1 + f) / 2)"
  unfolding addPathPairs_def inner_pairs foldl_add_sum_list sum_list_mult_const'
  unfolding pathsWeight_def[symmetric] by (simp add: mult.assoc)

lemma commonAncestorsOf_filter:
  assumes "distinct xs"
  shows "commonAncestorsOf xs ys = filter (\<lambda>a. a \<in> set ys) xs"
proof -
  have "distinct (acc @ xs) \<Longrightarrow>
        foldl (\<lambda>common ancestor. if ancestor \<in> set ys then set_add common ancestor else common) acc xs
          = acc @ filter (\<lambda>a. a \<in> set ys) xs" for acc
    by (induction xs arbitrary: acc) (auto simp: set_add_def)
  from this[of "[]"] assms show ?thesis by (simp add: commonAncestorsOf_def)
qed

lemma set_commonAncestorsOf: "set (commonAncestorsOf xs ys) = set xs \<inter> set ys"
proof -
  have "set (foldl (\<lambda>common ancestor. if ancestor \<in> set ys then set_add common ancestor else common) acc xs)
          = set acc \<union> (set xs \<inter> set ys)" for acc
    by (induction xs arbitrary: acc) (auto simp: set_add_def)
  from this[of "[]"] show ?thesis by (simp add: commonAncestorsOf_def)
qed

lemma distinct_commonAncestorsOf: "distinct (commonAncestorsOf xs ys)"
proof -
  have "distinct acc \<Longrightarrow>
        distinct (foldl (\<lambda>common ancestor. if ancestor \<in> set ys then set_add common ancestor else common) acc xs)" for acc
    by (induction xs arbitrary: acc) (auto simp: set_add_def)
  from this[of "[]"] show ?thesis by (simp add: commonAncestorsOf_def)
qed

declare calculateInbreeding.simps(2) [simp del]
declare calculateOffspringInbreeding.simps(3) [simp del]

text \<open>The value of one call in closed form: a sum over the common ancestors.\<close>

definition ancestorTerm :: "pedigree \<Rightarrow> ident set \<Rightarrow> ident \<Rightarrow> ident \<Rightarrow> ident \<Rightarrow> real" where
  "ancestorTerm g guard p1 p2 a =
     pathsWeight (findPathsToAncestorDFS g p1 a) * pathsWeight (findPathsToAncestorDFS g p2 a)
       * ((1 + calculateInbreeding g guard (Some a)) / 2)"

lemma calculateOffspringInbreeding_closed:
  "calculateOffspringInbreeding g guard (Some p1) (Some p2)
     = sum_list (map (ancestorTerm g guard p1 p2)
         (commonAncestorsOf (set_add (getAncestors g p1) p1) (set_add (getAncestors g p2) p2)))"
  unfolding calculateOffspringInbreeding.simps(3) Let_def addPathPairs_closed foldl_add_sum_list
    ancestorTerm_def by simp

lemma calculate_nonneg:
  "0 \<le> calculateInbreeding g guard a" "0 \<le> calculateOffspringInbreeding g guard p q"
proof (induction g guard a and g guard p q rule: calculateInbreeding_calculateOffspringInbreeding.induct)
  case (5 g guard p1 p2)
  show ?case
    unfolding calculateOffspringInbreeding_closed
  proof (rule sum_list_nonneg)
    fix x assume "x \<in> set (map (ancestorTerm g guard p1 p2)
         (commonAncestorsOf (set_add (getAncestors g p1) p1) (set_add (getAncestors g p2) p2)))"
    then obtain a where a: "a \<in> set (commonAncestorsOf (set_add (getAncestors g p1) p1) (set_add (getAncestors g p2) p2))"
      and x: "x = ancestorTerm g guard p1 p2 a" by auto
    from 5[OF refl refl a] have "0 \<le> calculateInbreeding g guard (Some a)" .
    then show "0 \<le> x" unfolding x ancestorTerm_def
      by (intro mult_nonneg_nonneg pathsWeight_nonneg) simp
  qed
qed (simp_all add: calculateInbreeding.simps(2) split: option.splits)

lemma member_le_sum_list_real:
  fixes xs :: "real list"
  assumes "\<And>y. y \<in> set xs \<Longrightarrow> 0 \<le> y" "x \<in> set xs"
  shows "x \<le> sum_list xs"
  using assms
proof (induction xs)
  case Nil
  then show ?case by simp
next
  case (Cons y ys)
  have nn: "0 \<le> sum_list ys" by (rule sum_list_nonneg) (simp add: Cons.prems)
  show ?case
  proof (cases "x = y")
    case True
    with nn show ?thesis by simp
  next
    case False
    with Cons.prems have "x \<in> set ys" by simp
    with Cons.IH Cons.prems have "x \<le> sum_list ys" by simp
    moreover have "0 \<le> y" using Cons.prems by simp
    ultimately show ?thesis by simp
  qed
qed

lemma ancestorTerm_nonneg: "0 \<le> ancestorTerm g guard p1 p2 a"
  unfolding ancestorTerm_def
  by (intro mult_nonneg_nonneg pathsWeight_nonneg) (simp add: calculate_nonneg(1) add_nonneg_nonneg)

lemma set_set_add: "set (set_add xs x) = insert x (set xs)"
  by (auto simp: set_add_def)

lemma ancestorTerm_le_offspring:
  assumes "a \<in> insert p1 (set (getAncestors g p1))" "a \<in> insert p2 (set (getAncestors g p2))"
  shows "ancestorTerm g guard p1 p2 a \<le> calculateOffspringInbreeding g guard (Some p1) (Some p2)"
  unfolding calculateOffspringInbreeding_closed
proof (rule member_le_sum_list_real)
  show "ancestorTerm g guard p1 p2 a \<in> set (map (ancestorTerm g guard p1 p2)
         (commonAncestorsOf (set_add (getAncestors g p1) p1) (set_add (getAncestors g p2) p2)))"
    using assms by (simp add: set_commonAncestorsOf set_set_add)
next
  fix y assume "y \<in> set (map (ancestorTerm g guard p1 p2)
         (commonAncestorsOf (set_add (getAncestors g p1) p1) (set_add (getAncestors g p2) p2)))"
  then show "0 \<le> y" by (auto simp: ancestorTerm_nonneg)
qed

lemma pathsWeight_trivial: "pathsWeight (findPathsToAncestorDFS g x x) = 1"
  by (simp add: findPathsToAncestorDFS_def pathsWeight_def)

lemma self_pairing_v6: "1/2 \<le> calculateOffspringInbreeding g guard (Some x) (Some x)"
proof -
  have "(1 + calculateInbreeding g guard (Some x)) / 2 \<le> calculateOffspringInbreeding g guard (Some x) (Some x)"
    using ancestorTerm_le_offspring[of x x g x guard]
    by (simp add: ancestorTerm_def pathsWeight_trivial)
  moreover have "0 \<le> calculateInbreeding g guard (Some x)" by (rule calculate_nonneg)
  ultimately show ?thesis by simp
qed

section \<open>Specification of the path enumeration\<close>

definition parentsOf :: "pedigree \<Rightarrow> ident \<Rightarrow> ident set" where
  "parentsOf g x = set_option (getParent1 g x) \<union> set_option (getParent2 g x)"

text \<open>A path follows parent edges: each node is a parent of the node before it.\<close>

fun isPath :: "pedigree \<Rightarrow> ident list \<Rightarrow> bool" where
  "isPath g [] = True"
| "isPath g [x] = True"
| "isPath g (x # y # ys) = (y \<in> parentsOf g x \<and> isPath g (y # ys))"

definition simplePaths :: "pedigree \<Rightarrow> ident \<Rightarrow> ident \<Rightarrow> ident list set" where
  "simplePaths g start target =
     {p. p \<noteq> [] \<and> hd p = start \<and> last p = target \<and> distinct p \<and> isPath g p}"

text \<open>What a stack entry still has to deliver: the ways to continue its path to the target.\<close>

definition extensions :: "pedigree \<Rightarrow> ident \<Rightarrow> pathNode \<Rightarrow> ident list set" where
  "extensions g t pn =
     {snd pn @ r | r. r \<noteq> [] \<and> isPath g (fst pn # r) \<and> last r = t \<and> t \<notin> set (butlast r)
        \<and> distinct (butlast r) \<and> set (butlast r) \<inter> set (snd pn) = {}}"

definition viaParent :: "pedigree \<Rightarrow> ident \<Rightarrow> ident list \<Rightarrow> ident \<Rightarrow> ident list set" where
  "viaParent g t cur p =
     (if p = t then {cur @ [p]} else if p \<notin> set cur then extensions g t (p, cur @ [p]) else {})"

lemma extensions_step: "extensions g t (a, cur) = (\<Union>p \<in> parentsOf g a. viaParent g t cur p)"
proof (intro set_eqI iffI)
  fix q assume "q \<in> extensions g t (a, cur)"
  then obtain r where r: "q = cur @ r" "r \<noteq> []" "isPath g (a # r)" "last r = t"
      "t \<notin> set (butlast r)" "distinct (butlast r)" "set (butlast r) \<inter> set cur = {}"
    by (auto simp: extensions_def)
  from r(2) obtain p r' where pr: "r = p # r'" by (cases r) auto
  with r(3) have pa: "p \<in> parentsOf g a" and ip: "isPath g (p # r')" by simp_all
  show "q \<in> (\<Union>p \<in> parentsOf g a. viaParent g t cur p)"
  proof (cases "r' = []")
    case True
    with pr r(1,4) have "q \<in> viaParent g t cur p" by (simp add: viaParent_def)
    with pa show ?thesis by blast
  next
    case False
    with pr r(4,5,6,7) have f: "p \<noteq> t" "last r' = t" "t \<notin> set (butlast r')" "distinct (butlast r')"
        "p \<notin> set (butlast r')" "p \<notin> set cur" "set (butlast r') \<inter> set (cur @ [p]) = {}"
      by auto
    have "q = (cur @ [p]) @ r'" using r(1) pr by simp
    with False ip f have "q \<in> extensions g t (p, cur @ [p])"
      unfolding extensions_def by (simp del: append_assoc)
    with f(1,6) have "q \<in> viaParent g t cur p" by (simp add: viaParent_def)
    with pa show ?thesis by blast
  qed
next
  fix q assume "q \<in> (\<Union>p \<in> parentsOf g a. viaParent g t cur p)"
  then obtain p where pa: "p \<in> parentsOf g a" and q: "q \<in> viaParent g t cur p" by blast
  show "q \<in> extensions g t (a, cur)"
  proof (cases "p = t")
    case True
    with q have "q = cur @ [t]" by (simp add: viaParent_def)
    moreover have "isPath g (a # [t])" using pa True by simp
    ultimately show ?thesis unfolding extensions_def
      by simp
  next
    case False
    with q have pc: "p \<notin> set cur" and "q \<in> extensions g t (p, cur @ [p])"
      by (auto simp: viaParent_def split: if_splits)
    then obtain r' where r': "q = (cur @ [p]) @ r'" "r' \<noteq> []" "isPath g (p # r')" "last r' = t"
      "t \<notin> set (butlast r')" "distinct (butlast r')" "set (butlast r') \<inter> set (cur @ [p]) = {}"
      by (auto simp: extensions_def)
    let ?r = "p # r'"
    have "q = cur @ ?r" using r'(1) by simp
    moreover have "isPath g (a # ?r)" using pa r'(3) by simp
    moreover have "last ?r = t" using r'(2,4) by simp
    moreover have "t \<notin> set (butlast ?r)" using r'(2,5) False by auto
    moreover have "distinct (butlast ?r)" using r'(2,6,7) by auto
    moreover have "set (butlast ?r) \<inter> set cur = {}" using r'(2,7) pc by auto
    ultimately show ?thesis unfolding extensions_def
      by simp
  qed
qed


declare dfsLoop.simps(2) [simp del]

lemma processParent_sets:
  "set (fst (processParentForDFS po t cur ps)) \<union> (\<Union>pn \<in> set (snd (processParentForDFS po t cur ps)). extensions g t pn)
     = set (fst ps) \<union> (\<Union>pn \<in> set (snd ps). extensions g t pn) \<union> (\<Union>p \<in> set_option po. viaParent g t cur p)"
  by (cases po) (auto simp: processParentForDFS_def viaParent_def)

lemma dfsLoop_sets:
  "set (dfsLoop g t stack paths) = set paths \<union> (\<Union>pn \<in> set stack. extensions g t pn)"
proof (induction g t stack paths rule: dfsLoop.induct)
  case (1 g target paths)
  show ?case by simp
next
  case (2 g target currentAnimal currentPath stack paths)
  let ?ps1 = "processParentForDFS (getParent1 g currentAnimal) target currentPath (paths, stack)"
  let ?ps2 = "processParentForDFS (getParent2 g currentAnimal) target currentPath ?ps1"
  have "set (dfsLoop g target ((currentAnimal, currentPath) # stack) paths)
          = set (fst ?ps2) \<union> (\<Union>pn \<in> set (snd ?ps2). extensions g target pn)"
    using 2[OF refl] by (simp add: dfsLoop.simps(2) Let_def)
  also have "\<dots> = set paths \<union> (\<Union>pn \<in> set stack. extensions g target pn)
       \<union> (\<Union>p \<in> set_option (getParent1 g currentAnimal). viaParent g target currentPath p)
       \<union> (\<Union>p \<in> set_option (getParent2 g currentAnimal). viaParent g target currentPath p)"
    unfolding processParent_sets by simp
  also have "\<dots> = set paths \<union> (\<Union>pn \<in> set ((currentAnimal, currentPath) # stack). extensions g target pn)"
    by (auto simp: extensions_step parentsOf_def)
  finally show ?case .
qed

lemma extensions_start:
  assumes "s \<noteq> t"
  shows "extensions g t (s, [s]) = simplePaths g s t"
proof (intro set_eqI iffI)
  fix q assume "q \<in> extensions g t (s, [s])"
  then obtain r where r: "q = s # r" "r \<noteq> []" "isPath g (s # r)" "last r = t"
      "t \<notin> set (butlast r)" "distinct (butlast r)" "s \<notin> set (butlast r)"
    by (auto simp: extensions_def)
  have br: "r = butlast r @ [t]" using r(2,4) by (metis append_butlast_last_id)
  have "distinct r" by (subst br) (use r(5,6) in simp)
  moreover have "s \<notin> set r" by (subst br) (use r(7) assms in simp)
  ultimately show "q \<in> simplePaths g s t" using r by (simp add: simplePaths_def)
next
  fix q assume "q \<in> simplePaths g s t"
  then have q: "q \<noteq> []" "hd q = s" "last q = t" "distinct q" "isPath g q"
    by (simp_all add: simplePaths_def)
  then obtain r where qr: "q = s # r" by (cases q) auto
  with q(3) assms have rn: "r \<noteq> []" by auto
  with qr q(3) have lr: "last r = t" by simp
  have br: "r = butlast r @ [t]" using rn lr by (metis append_butlast_last_id)
  from q(4) qr have d: "distinct r" "s \<notin> set r" by simp_all
  from d(1) have "distinct (butlast r @ [t])" using br by simp
  then have "t \<notin> set (butlast r)" "distinct (butlast r)" by simp_all
  moreover have "s \<notin> set (butlast r)" using d(2) by (meson in_set_butlastD)
  ultimately show "q \<in> extensions g t (s, [s])"
    using qr rn lr q(5) by (simp add: extensions_def)
qed

lemma simplePaths_self: "simplePaths g s s = {[s]}"
proof (intro set_eqI iffI)
  fix q assume "q \<in> simplePaths g s s"
  then have q: "q \<noteq> []" "hd q = s" "last q = s" "distinct q" by (simp_all add: simplePaths_def)
  then obtain r where qr: "q = s # r" by (cases q) auto
  have "r = []"
  proof (rule ccontr)
    assume "r \<noteq> []"
    with q(3) qr have "last r = s" by simp
    with \<open>r \<noteq> []\<close> have "s \<in> set r" using last_in_set by metis
    with q(4) qr show False by simp
  qed
  with qr show "q \<in> {[s]}" by simp
next
  fix q assume "q \<in> {[s]}"
  then show "q \<in> simplePaths g s s" by (simp add: simplePaths_def)
qed

lemma findPaths_simplePaths: "set (findPathsToAncestorDFS g s t) = simplePaths g s t"
  by (simp add: findPathsToAncestorDFS_def simplePaths_self dfsLoop_sets extensions_start)

section \<open>Specification of the ancestor traversal\<close>

definition parentEdges :: "pedigree \<Rightarrow> (ident \<times> ident) set" where
  "parentEdges g = {(x, p). p \<in> parentsOf g x}"

text \<open>The ancestor closure of an individual, the individual included.\<close>

definition closure :: "pedigree \<Rightarrow> ident \<Rightarrow> ident set" where
  "closure g x = {y. (x, y) \<in> (parentEdges g)\<^sup>*}"

declare bfsLoop.simps(2) [simp del]

lemma isPath_reach: "p \<noteq> [] \<Longrightarrow> isPath g p \<Longrightarrow> (hd p, last p) \<in> (parentEdges g)\<^sup>*"
proof (induction g p rule: isPath.induct)
  case (3 g x y ys)
  then have "(y, last (y # ys)) \<in> (parentEdges g)\<^sup>*" by simp
  moreover have "(x, y) \<in> parentEdges g" using 3(3) by (simp add: parentEdges_def)
  ultimately show ?case by (simp add: converse_rtrancl_into_rtrancl)
qed simp_all

lemma simplePaths_reach: "p \<in> simplePaths g s t \<Longrightarrow> t \<in> closure g s"
  using isPath_reach[of p g] by (auto simp: simplePaths_def closure_def)

lemma enqueue_set:
  "set (fst (enqueue po qv)) = set (fst qv) \<union> (set_option po - snd qv)"
  "snd (enqueue po qv) = snd qv \<union> set_option po"
  by (cases po; auto simp: enqueue_def)+

lemma closed_reach:
  assumes "(v, y) \<in> (parentEdges g)\<^sup>*" "v \<in> V" "y \<notin> V"
    and "\<And>w. w \<in> V \<Longrightarrow> w \<notin> Q \<Longrightarrow> parentsOf g w \<subseteq> V"
  shows "\<exists>q \<in> Q. (q, y) \<in> (parentEdges g)\<^sup>*"
  using assms(1,2,3)
proof (induction rule: converse_rtrancl_induct)
  case base
  then show ?case by simp
next
  case (step v w)
  show ?case
  proof (cases "v \<in> Q")
    case True
    moreover have "(v, y) \<in> (parentEdges g)\<^sup>*"
      using step(1,2) by (rule converse_rtrancl_into_rtrancl)
    ultimately show ?thesis by blast
  next
    case False
    with assms(4)[OF step(4)] step(1) have "w \<in> V" by (auto simp: parentEdges_def)
    from step(3)[OF this step(5)] show ?thesis .
  qed
qed

lemma bfsLoop_set:
  assumes "set Q \<subseteq> V" "\<And>w. w \<in> V \<Longrightarrow> w \<notin> set Q \<Longrightarrow> parentsOf g w \<subseteq> V"
  shows "set (bfsLoop g Q V A) = set A \<union> set Q \<union> ({y. \<exists>q \<in> set Q. (q, y) \<in> (parentEdges g)\<^sup>*} - V)"
  using assms
proof (induction g Q V A rule: bfsLoop.induct)
  case (1 g visited ancestors)
  show ?case by simp
next
  case (2 g c Q' V A)
  let ?qv = "enqueue (getParent2 g c) (enqueue (getParent1 g c) (Q', V))"
  let ?R = "(parentEdges g)\<^sup>*"
  have fq: "set (fst ?qv) = set Q' \<union> (parentsOf g c - V)"
    by (auto simp: enqueue_set parentsOf_def)
  have sq: "snd ?qv = V \<union> parentsOf g c"
    by (auto simp: enqueue_set parentsOf_def)
  have cV: "c \<in> V" and Q'V: "set Q' \<subseteq> V" using 2(2) by simp_all
  have sub: "set (fst ?qv) \<subseteq> snd ?qv" using Q'V by (auto simp: fq sq)
  have cl: "parentsOf g w \<subseteq> snd ?qv" if "w \<in> snd ?qv" "w \<notin> set (fst ?qv)" for w
  proof (cases "w = c")
    case True
    then show ?thesis by (simp add: sq)
  next
    case False
    from that have "w \<in> V" "w \<notin> set Q'" by (auto simp: fq sq)
    with False 2(3)[of w] show ?thesis by (auto simp: sq)
  qed
  have IH: "set (bfsLoop g (fst ?qv) (snd ?qv) (set_add A c))
      = set (set_add A c) \<union> set (fst ?qv) \<union> ({y. \<exists>q \<in> set (fst ?qv). (q, y) \<in> ?R} - snd ?qv)"
    using 2(1)[OF refl sub cl] by blast
  have "set (set_add A c) \<union> set (fst ?qv) \<union> ({y. \<exists>q \<in> set (fst ?qv). (q, y) \<in> ?R} - snd ?qv)
      = set A \<union> set (c # Q') \<union> ({y. \<exists>q \<in> set (c # Q'). (q, y) \<in> ?R} - V)" (is "?L = ?Rhs")
  proof (intro set_eqI iffI)
    fix y assume "y \<in> ?L"
    then consider "y \<in> set A \<union> set (c # Q')" | "y \<in> parentsOf g c - V"
      | "y \<notin> V" "\<exists>q \<in> set Q' \<union> (parentsOf g c - V). (q, y) \<in> ?R"
      by (auto simp: fq sq set_add_def split: if_splits)
    then show "y \<in> ?Rhs"
    proof cases
      case 1
      then show ?thesis by blast
    next
      case 2
      then have "(c, y) \<in> ?R" by (auto simp: parentEdges_def)
      with 2 show ?thesis by auto
    next
      case 3
      then obtain q where q: "q \<in> set Q' \<union> (parentsOf g c - V)" "(q, y) \<in> ?R" by blast
      show ?thesis
      proof (cases "q \<in> set Q'")
        case True
        with q(2) 3(1) show ?thesis by auto
      next
        case False
        with q(1) have "(c, q) \<in> parentEdges g" by (simp add: parentEdges_def)
        from this q(2) have "(c, y) \<in> ?R" by (rule converse_rtrancl_into_rtrancl)
        with 3(1) show ?thesis by auto
      qed
    qed
  next
    fix y assume y: "y \<in> ?Rhs"
    show "y \<in> ?L"
    proof (cases "y \<in> set A \<union> set (c # Q') \<union> (parentsOf g c - V)")
      case True
      then show ?thesis by (auto simp: fq sq set_add_def)
    next
      case False
      with y have yV: "y \<notin> V" and ex: "\<exists>q \<in> set (c # Q'). (q, y) \<in> ?R" by auto
      from False yV have ys: "y \<notin> snd ?qv" by (auto simp: sq)
      from ex obtain q where q: "q \<in> set (c # Q')" "(q, y) \<in> ?R" by blast
      with 2(2) have "q \<in> snd ?qv" by (auto simp: sq)
      from closed_reach[OF q(2) this ys, of "set (fst ?qv)"] cl
      have "\<exists>q \<in> set (fst ?qv). (q, y) \<in> ?R" by blast
      with ys show ?thesis by blast
    qed
  qed
  with IH show ?case by (simp add: bfsLoop.simps(2) Let_def)
qed


lemma closure_parents:
  "closure g x = insert x {y. \<exists>q \<in> parentsOf g x. (q, y) \<in> (parentEdges g)\<^sup>*}"
proof (intro set_eqI iffI)
  fix y assume "y \<in> closure g x"
  then have "(x, y) \<in> (parentEdges g)\<^sup>*" by (simp add: closure_def)
  then show "y \<in> insert x {y. \<exists>q \<in> parentsOf g x. (q, y) \<in> (parentEdges g)\<^sup>*}"
    by (cases rule: converse_rtranclE) (auto simp: parentEdges_def)
next
  fix y assume "y \<in> insert x {y. \<exists>q \<in> parentsOf g x. (q, y) \<in> (parentEdges g)\<^sup>*}"
  then consider "y = x" | q where "q \<in> parentsOf g x" "(q, y) \<in> (parentEdges g)\<^sup>*" by blast
  then show "y \<in> closure g x"
  proof cases
    case 1
    then show ?thesis by (simp add: closure_def)
  next
    case 2
    from 2(1) have "(x, q) \<in> parentEdges g" by (simp add: parentEdges_def)
    from this 2(2) show ?thesis unfolding closure_def
      by (simp add: converse_rtrancl_into_rtrancl)
  qed
qed

lemma set_initQueue: "set (initQueue g x) = parentsOf g x"
  by (cases "getParent1 g x"; cases "getParent2 g x") (auto simp: initQueue_def parentsOf_def)

lemma getAncestors_closure: "insert x (set (getAncestors g x)) = closure g x"
proof -
  have "set (getAncestors g x) = set (initQueue g x)
          \<union> ({y. \<exists>q \<in> set (initQueue g x). (q, y) \<in> (parentEdges g)\<^sup>*} - set (initQueue g x))"
    unfolding getAncestors_def using bfsLoop_set[of "initQueue g x" "set (initQueue g x)" g "[]"] by simp
  then show ?thesis unfolding closure_parents set_initQueue by auto
qed

lemma getAncestorsV1_closure: "insert x (set (getAncestorsV1 g x)) = closure g x"
proof -
  have "set (getAncestorsV1 g x) = set (initQueue g x)
          \<union> ({y. \<exists>q \<in> set (initQueue g x). (q, y) \<in> (parentEdges g)\<^sup>*} - insert x (set (initQueue g x)))"
    unfolding getAncestorsV1_def
    using bfsLoop_set[of "initQueue g x" "insert x (set (initQueue g x))" g "[]"]
    by (auto simp: set_initQueue)
  then show ?thesis unfolding closure_parents set_initQueue by auto
qed

lemma distinct_set_add: "distinct xs \<Longrightarrow> distinct (set_add xs x)"
  by (simp add: set_add_def)

lemma distinct_bfsLoop: "distinct A \<Longrightarrow> distinct (bfsLoop g Q V A)"
  by (induction g Q V A rule: bfsLoop.induct) (simp_all add: bfsLoop.simps(2) Let_def distinct_set_add)

lemma distinct_getAncestors: "distinct (getAncestors g x)" "distinct (getAncestorsV1 g x)"
  by (simp_all add: getAncestors_def getAncestorsV1_def distinct_bfsLoop)





text \<open>Founders: neither parent is known.\<close>

definition founder :: "pedigree \<Rightarrow> ident \<Rightarrow> bool" where
  "founder g x = (getParent1 g x = None \<and> getParent2 g x = None)"

lemma founder_closure: "founder g x \<Longrightarrow> closure g x = {x}"
  by (simp add: closure_parents parentsOf_def founder_def)




lemma sib_closure:
  assumes "getParent1 g a = Some m" "getParent2 g a = Some f" "founder g m" "founder g f"
  shows "closure g a = {a, m, f}"
proof -
  have "{y. \<exists>q \<in> parentsOf g a. (q, y) \<in> (parentEdges g)\<^sup>*} = closure g m \<union> closure g f"
    using assms(1,2) by (auto simp: parentsOf_def closure_def)
  then show ?thesis using assms(3,4) by (simp add: closure_parents[of g a] founder_closure) blast
qed


section \<open>Input records and the pedigree loader\<close>

text \<open>
  A field of an input record is absent (\<open>undefined\<close>), \<open>null\<close> or a string.  (Numeric
  identifiers are not modelled.)
\<close>

datatype jsval = JUndefined | JNull | JStr string

record pedigreeRecord =
  sId :: jsval
  sid :: jsval
  mId :: jsval
  fId :: jsval
  mmId :: jsval
  mfId :: jsval
  fmId :: jsval
  ffId :: jsval
  mmmId :: jsval
  mmfId :: jsval
  mfmId :: jsval
  mffId :: jsval
  fmmId :: jsval
  fmfId :: jsval
  ffmId :: jsval
  fffId :: jsval

text \<open>Truthiness, \<open>a || b\<close>, \<open>String(v)\<close>, \<open>trim\<close> and \<open>toLowerCase\<close> (on ASCII).\<close>

definition truthy :: "jsval \<Rightarrow> bool" where
  "truthy v = (case v of JStr s \<Rightarrow> s \<noteq> [] | _ \<Rightarrow> False)"

definition jsOr :: "jsval \<Rightarrow> jsval \<Rightarrow> jsval" where
  "jsOr a b = (if truthy a then a else b)"

definition toStr :: "jsval \<Rightarrow> string" where
  "toStr v = (case v of JUndefined \<Rightarrow> ''undefined'' | JNull \<Rightarrow> ''null'' | JStr s \<Rightarrow> s)"

definition isSpace :: "char \<Rightarrow> bool" where
  "isSpace c = (c \<in> set [CHR '' '', CHR 0x09, CHR 0x0A, CHR 0x0B, CHR 0x0C, CHR 0x0D])"

definition trim :: "string \<Rightarrow> string" where
  "trim s = rev (dropWhile isSpace (rev (dropWhile isSpace s)))"

definition lowerChar :: "char \<Rightarrow> char" where
  "lowerChar c = (let n = (of_char c :: nat) in if 65 \<le> n \<and> n \<le> 90 then char_of (n + 32) else c)"

definition toLowerCase :: "string \<Rightarrow> string" where
  "toLowerCase s = map lowerChar s"

datatype error = InvalidAnimalId string

text \<open>
  The \<open>Animal\<close> constructor with the default \<open>null\<close> parents.  It throws on \<open>null\<close>,
  \<open>undefined\<close>, a blank string and on the words \<open>undefined\<close> and \<open>null\<close> in any case.
\<close>

definition newAnimal :: "jsval \<Rightarrow> error + (ident \<times> animal)" where
  "newAnimal v =
     (if v = JNull \<or> v = JUndefined \<or> trim (toStr v) = [] \<or> toLowerCase (toStr v) = ''undefined''
         \<or> toLowerCase (toStr v) = ''null''
      then Inl (InvalidAnimalId (toStr v))
      else Inr (trim (toStr v), \<lparr>parent1 = None, parent2 = None\<rparr>))"

text \<open>
  \<open>getOrCreateAnimal\<close>: \<open>null\<close> for a missing identifier, otherwise the animal of the map,
  created first if it is not there.  The result is the animal's identifier and the map.
\<close>

definition getOrCreateAnimal :: "pedigree \<Rightarrow> jsval \<Rightarrow> error + (ident option \<times> pedigree)" where
  "getOrCreateAnimal animalMap v =
     (if v = JNull \<or> v = JUndefined \<or> trim (toStr v) = [] then Inr (None, animalMap)
      else let trimmedId = trim (toStr v) in
        (case map_of animalMap trimmedId of
           Some a \<Rightarrow> Inr (Some trimmedId, animalMap)
         | None \<Rightarrow> (case newAnimal (JStr trimmedId) of
                      Inl e \<Rightarrow> Inl e
                    | Inr ka \<Rightarrow> Inr (Some trimmedId, animalMap @ [(trimmedId, snd ka)]))))"

definition setParent1 :: "pedigree \<Rightarrow> ident \<Rightarrow> ident \<Rightarrow> pedigree" where
  "setParent1 animalMap child p =
     map (\<lambda>(k, a). if k = child then (k, a\<lparr>parent1 := Some p\<rparr>) else (k, a)) animalMap"

definition setParent2 :: "pedigree \<Rightarrow> ident \<Rightarrow> ident \<Rightarrow> pedigree" where
  "setParent2 animalMap child p =
     map (\<lambda>(k, a). if k = child then (k, a\<lparr>parent2 := Some p\<rparr>) else (k, a)) animalMap"

subsection \<open>The first pass: one animal per identifier that occurs\<close>

definition idFields :: "(pedigreeRecord \<Rightarrow> jsval) list" where
  "idFields = [sId, sid, mId, fId, mmId, mfId, fmId, ffId, mmmId, mmfId, mfmId, mffId,
               fmmId, fmfId, ffmId, fffId]"

text \<open>The body of the loop over \<open>idFields\<close>, for the value of one field.\<close>

definition collectField :: "ident list \<Rightarrow> jsval \<Rightarrow> ident list" where
  "collectField allIds v =
     (if truthy v
      then (let trimmedId = trim (toStr v)
            in if trimmedId \<noteq> [] then set_add allIds trimmedId else allIds)
      else allIds)"

definition collectRecord :: "ident list \<Rightarrow> pedigreeRecord \<Rightarrow> ident list" where
  "collectRecord allIds record = foldl (\<lambda>ids field. collectField ids (field record)) allIds idFields"

definition collectIds :: "pedigreeRecord list \<Rightarrow> ident list" where
  "collectIds jsonDataArray = foldl collectRecord [] jsonDataArray"

fun createAll :: "pedigree \<Rightarrow> ident list \<Rightarrow> error + pedigree" where
  "createAll animalMap [] = Inr animalMap"
| "createAll animalMap (x # xs) =
     (case getOrCreateAnimal animalMap (JStr x) of
        Inl e \<Rightarrow> Inl e
      | Inr r \<Rightarrow> createAll (snd r) xs)"

subsection \<open>The second pass: the relationships of one record\<close>

text \<open>
  The object literal \<open>relationships\<close> has computed keys, so each key is \<open>String\<close> of the
  field.  A key written twice keeps its first position and takes the last value.
\<close>

fun objectSet :: "(string \<times> 'v) list \<Rightarrow> string \<Rightarrow> 'v \<Rightarrow> (string \<times> 'v) list" where
  "objectSet [] k v = [(k, v)]"
| "objectSet ((k', v') # kvs) k v = (if k' = k then (k, v) # kvs else (k', v') # objectSet kvs k v)"

definition relationships :: "pedigreeRecord \<Rightarrow> (string \<times> jsval \<times> jsval) list" where
  "relationships r =
     foldl (\<lambda>obj (k, v). objectSet obj (toStr k) v) []
       [(jsOr (sId r) (sid r), (mId r, fId r)),
        (fId r, (fmId r, ffId r)),
        (mId r, (mmId r, mfId r)),
        (ffId r, (ffmId r, fffId r)),
        (fmId r, (fmmId r, fmfId r)),
        (mfId r, (mfmId r, mffId r)),
        (mmId r, (mmmId r, mmfId r))]"

text \<open>
  \<open>for (const childId in relationships)\<close> visits the keys that are array indices
  (canonical decimal numerals below \<open>2^32 - 1\<close>) first, in ascending numeric order, then
  the other keys in insertion order.
\<close>

definition isDigit :: "char \<Rightarrow> bool" where
  "isDigit c = (48 \<le> (of_char c :: nat) \<and> (of_char c :: nat) \<le> 57)"

definition digitsValue :: "string \<Rightarrow> nat" where
  "digitsValue s = foldl (\<lambda>n c. 10 * n + ((of_char c :: nat) - 48)) 0 s"

definition isArrayIndex :: "string \<Rightarrow> bool" where
  "isArrayIndex s = (s \<noteq> [] \<and> list_all isDigit s \<and> (hd s \<noteq> CHR ''0'' \<or> s = ''0'')
       \<and> length s \<le> 10 \<and> digitsValue s < 4294967295)"

definition forInOrder :: "(string \<times> 'v) list \<Rightarrow> (string \<times> 'v) list" where
  "forInOrder obj = sort_key (\<lambda>kv. digitsValue (fst kv)) (filter (\<lambda>kv. isArrayIndex (fst kv)) obj)
                  @ filter (\<lambda>kv. \<not> isArrayIndex (fst kv)) obj"

text \<open>
  The body of the inner loop for one key of \<open>relationships\<close>.  The strict-pairing and
  the no-cache files overwrite a parent that is already set (\<open>overwrite = True\<close>); the
  independent-path file sets a parent only while it is \<open>null\<close> (\<open>overwrite = False\<close>).
\<close>

definition attachParents ::
  "bool \<Rightarrow> pedigree \<Rightarrow> string \<times> jsval \<times> jsval \<Rightarrow> error + pedigree" where
  "attachParents overwrite animalMap rel =
     (case getOrCreateAnimal animalMap (JStr (fst rel)) of
        Inl e \<Rightarrow> Inl e
      | Inr (None, m0) \<Rightarrow> Inr m0
      | Inr (Some childId, m0) \<Rightarrow>
         (case getOrCreateAnimal m0 (fst (snd rel)) of
            Inl e \<Rightarrow> Inl e
          | Inr (mother, m1) \<Rightarrow>
             (case getOrCreateAnimal m1 (snd (snd rel)) of
                Inl e \<Rightarrow> Inl e
              | Inr (father, m2) \<Rightarrow>
                 (let m3 = (case mother of
                              Some mo \<Rightarrow> if overwrite \<or> getParent1 m2 childId = None
                                         then setParent1 m2 childId mo else m2
                            | None \<Rightarrow> m2);
                      m4 = (case father of
                              Some fa \<Rightarrow> if overwrite \<or> getParent2 m3 childId = None
                                         then setParent2 m3 childId fa else m3
                            | None \<Rightarrow> m3)
                  in Inr m4))))"

fun attachAll :: "bool \<Rightarrow> pedigree \<Rightarrow> (string \<times> jsval \<times> jsval) list \<Rightarrow> error + pedigree" where
  "attachAll overwrite animalMap [] = Inr animalMap"
| "attachAll overwrite animalMap (rel # rels) =
     (case attachParents overwrite animalMap rel of
        Inl e \<Rightarrow> Inl e
      | Inr m \<Rightarrow> attachAll overwrite m rels)"

fun loadRecords :: "bool \<Rightarrow> pedigree \<Rightarrow> pedigreeRecord list \<Rightarrow> error + pedigree" where
  "loadRecords overwrite animalMap [] = Inr animalMap"
| "loadRecords overwrite animalMap (r # rs) =
     (case attachAll overwrite animalMap (forInOrder (relationships r)) of
        Inl e \<Rightarrow> Inl e
      | Inr m \<Rightarrow> loadRecords overwrite m rs)"

definition loadPedigreeFromJson :: "bool \<Rightarrow> pedigree \<Rightarrow> pedigreeRecord list \<Rightarrow> error + pedigree" where
  "loadPedigreeFromJson overwrite animalMap jsonDataArray =
     (case createAll animalMap (collectIds jsonDataArray) of
        Inl e \<Rightarrow> Inl e
      | Inr m \<Rightarrow> loadRecords overwrite m jsonDataArray)"

section \<open>The entry point of the strict-pairing file\<close>

record resultTuple =
  bullId :: string
  cowId :: string
  inbreedingCoefficient :: real

text \<open>
  \<open>parseFloat(x.toFixed(8))\<close>: the multiple of \<open>10^-8\<close> nearest to \<open>x\<close>, the larger one
  on a tie, computed on the absolute value.
\<close>

definition toFixed8 :: "real \<Rightarrow> real" where
  "toFixed8 x = (if x < 0 then - (of_int \<lfloor>- x * 10 ^ 8 + 1/2\<rfloor> / 10 ^ 8)
                 else of_int \<lfloor>x * 10 ^ 8 + 1/2\<rfloor> / 10 ^ 8)"

text \<open>
  One iteration of the loop over the bulls: a fresh planner and a fresh calculator, the
  pedigree of the cow's record and this bull's record only.  The result is the list of
  tuples the iteration pushes (none or one).
\<close>

definition pairResult :: "pedigreeRecord \<Rightarrow> pedigreeRecord \<Rightarrow> error + resultTuple list" where
  "pairResult cowRecord primaryBullRecord =
     (let primaryCowId = jsOr (sId cowRecord) (sid cowRecord);
          primaryBullId = jsOr (sId primaryBullRecord) (sid primaryBullRecord)
      in if \<not> truthy primaryBullId then Inr []
         else (case loadPedigreeFromJson True [] [cowRecord, primaryBullRecord] of
            Inl e \<Rightarrow> Inl e
          | Inr m0 \<Rightarrow>
             (case getOrCreateAnimal m0 primaryCowId of
                Inl e \<Rightarrow> Inl e
              | Inr (cowAnimal, m1) \<Rightarrow>
                 (case getOrCreateAnimal m1 primaryBullId of
                    Inl e \<Rightarrow> Inl e
                  | Inr (bullAnimal, m2) \<Rightarrow>
                     (case (cowAnimal, bullAnimal) of
                        (Some c, Some b) \<Rightarrow>
                           Inr [\<lparr>bullId = b, cowId = c,
                                 inbreedingCoefficient =
                                   toFixed8 (calculateOffspringInbreeding m2 {} (Some b) (Some c))\<rparr>]
                      | _ \<Rightarrow> Inr [])))))"

fun pairLoop :: "pedigreeRecord \<Rightarrow> pedigreeRecord list \<Rightarrow> resultTuple list \<Rightarrow> error + resultTuple list" where
  "pairLoop cowRecord [] results = Inr results"
| "pairLoop cowRecord (primaryBullRecord # bulls) results =
     (case pairResult cowRecord primaryBullRecord of
        Inl e \<Rightarrow> Inl e
      | Inr rs \<Rightarrow> pairLoop cowRecord bulls (results @ rs))"

text \<open>
  The entry point.  The guard of the source returns \<open>[]\<close> when the cow's record is
  missing or has no identifier, or the array is missing or empty; the model tests the
  complement and runs the loop.
\<close>

definition calculateBreedingInbreeding ::
  "pedigreeRecord option \<Rightarrow> pedigreeRecord list option \<Rightarrow> error + resultTuple list" where
  "calculateBreedingInbreeding cowRecord bullRecordsArray =
     (case (cowRecord, bullRecordsArray) of
        (Some cow, Some bulls) \<Rightarrow>
           if truthy (jsOr (sId cow) (sid cow)) \<and> bulls \<noteq> [] then pairLoop cow bulls []
           else Inr []
      | _ \<Rightarrow> Inr [])"

text \<open>A record with every field the empty string, to be updated field by field.\<close>

definition blank :: pedigreeRecord where
  "blank = \<lparr>sId = JStr [], sid = JStr [], mId = JStr [], fId = JStr [], mmId = JStr [],
     mfId = JStr [], fmId = JStr [], ffId = JStr [], mmmId = JStr [], mmfId = JStr [],
     mfmId = JStr [], mffId = JStr [], fmmId = JStr [], fmfId = JStr [], ffmId = JStr [],
     fffId = JStr []\<rparr>"

section \<open>Facts about the entry point\<close>

lemma pairLoop_acc:
  "pairLoop cow bulls acc = (case pairLoop cow bulls [] of Inl e \<Rightarrow> Inl e | Inr rs \<Rightarrow> Inr (acc @ rs))"
proof (induction bulls arbitrary: acc)
  case Nil
  show ?case by simp
next
  case (Cons b bulls)
  show ?case
  proof (cases "pairResult cow b")
    case (Inl e)
    then show ?thesis by simp
  next
    case (Inr rb)
    then show ?thesis
      using Cons.IH[of "acc @ rb"] Cons.IH[of rb] by (simp split: sum.splits)
  qed
qed

lemma pairLoop_append:
  "pairLoop cow (xs @ ys) [] =
     (case pairLoop cow xs [] of Inl e \<Rightarrow> Inl e
      | Inr r1 \<Rightarrow> (case pairLoop cow ys [] of Inl e \<Rightarrow> Inl e | Inr r2 \<Rightarrow> Inr (r1 @ r2)))"
proof (induction xs)
  case Nil
  show ?case by (simp split: sum.splits)
next
  case (Cons b xs)
  show ?case
  proof (cases "pairResult cow b")
    case (Inl e)
    then show ?thesis by simp
  next
    case (Inr rb)
    then show ?thesis
      using Cons.IH pairLoop_acc[of cow "xs @ ys" rb] pairLoop_acc[of cow xs rb]
      by (simp split: sum.splits)
  qed
qed

lemma toFixed8_nonneg: "0 \<le> x \<Longrightarrow> 0 \<le> toFixed8 x"
  by (simp add: toFixed8_def)

lemma pairResult_nonneg:
  assumes "pairResult cow b = Inr rs" "r \<in> set rs"
  shows "0 \<le> inbreedingCoefficient r"
  using assms
  by (auto simp: pairResult_def Let_def toFixed8_nonneg calculate_nonneg
      split: if_splits sum.splits option.splits prod.splits)

lemma pairLoop_nonneg:
  assumes "pairLoop cow bulls acc = Inr rs" "\<And>r. r \<in> set acc \<Longrightarrow> 0 \<le> inbreedingCoefficient r"
    "r \<in> set rs"
  shows "0 \<le> inbreedingCoefficient r"
  using assms
proof (induction bulls arbitrary: acc)
  case Nil
  then show ?case by simp
next
  case (Cons b bulls)
  from Cons.prems(1) obtain rb where rb: "pairResult cow b = Inr rb"
    and rest: "pairLoop cow bulls (acc @ rb) = Inr rs"
    by (cases "pairResult cow b") simp_all
  show ?case
  proof (rule Cons.IH[OF rest _ Cons.prems(3)])
    fix r' assume "r' \<in> set (acc @ rb)"
    then show "0 \<le> inbreedingCoefficient r'"
      using Cons.prems(2) pairResult_nonneg[OF rb] by auto
  qed
qed

section \<open>Evaluation on concrete inputs\<close>

text \<open>
  Rule sets for evaluating the model on concrete records and pedigrees with the
  simplifier.  The weak congruence rules make it evaluate a condition or a scrutinee
  before it looks into the branches.
\<close>

lemmas evcong = if_weak_cong sum.case_cong_weak option.case_cong_weak prod.case_cong_weak
  jsval.case_cong_weak let_weak_cong

lemmas js_ev = truthy_def toStr_def trim_def isSpace_def jsOr_def toLowerCase_def lowerChar_def

lemmas loader_ev = loadPedigreeFromJson_def collectIds_def collectRecord_def collectField_def
  idFields_def set_add_def getOrCreateAnimal_def newAnimal_def relationships_def forInOrder_def
  isArrayIndex_def isDigit_def digitsValue_def attachParents_def setParent1_def setParent2_def
  getParent1_def getParent2_def Let_def

lemmas engine_ev = calculateOffspringInbreeding_closed calculateInbreeding.simps(2) ancestorTerm_def
  pathsWeight_def findPathsToAncestorDFS_def dfsLoop.simps(2) processParentForDFS_def getAncestors_def
  initQueue_def bfsLoop.simps(2) enqueue_def set_add_def commonAncestorsOf_def getParent1_def
  getParent2_def Let_def

text \<open>A record whose identifier fields are all absent.\<close>

definition absent :: pedigreeRecord where
  "absent = \<lparr>sId = JUndefined, sid = JUndefined, mId = JUndefined, fId = JUndefined,
     mmId = JUndefined, mfId = JUndefined, fmId = JUndefined, ffId = JUndefined,
     mmmId = JUndefined, mmfId = JUndefined, mfmId = JUndefined, mffId = JUndefined,
     fmmId = JUndefined, fmfId = JUndefined, ffmId = JUndefined, fffId = JUndefined\<rparr>"

subsection \<open>A backcross on a line bred from full siblings\<close>

text \<open>
  The cow \<open>C\<close> is the daughter of the full siblings \<open>M\<close> and \<open>F\<close>, whose parents \<open>GM\<close> and
  \<open>GF\<close> are full siblings too (out of the founders \<open>X\<close> and \<open>Y\<close>).  The bull \<open>B\<close> is the
  son of \<open>C\<close> and her father \<open>F\<close>.
\<close>

definition cowBackcross :: pedigreeRecord where
  "cowBackcross = \<lparr>sId = JStr ''C'', sid = JStr [], mId = JStr ''M'', fId = JStr ''F'',
     mmId = JStr ''GM'', mfId = JStr ''GF'', fmId = JStr ''GM'', ffId = JStr ''GF'',
     mmmId = JStr ''X'', mmfId = JStr ''Y'', mfmId = JStr ''X'', mffId = JStr ''Y'',
     fmmId = JStr ''X'', fmfId = JStr ''Y'', ffmId = JStr ''X'', fffId = JStr ''Y''\<rparr>"

definition bullBackcross :: pedigreeRecord where
  "bullBackcross = \<lparr>sId = JStr ''B'', sid = JStr [], mId = JStr ''C'', fId = JStr ''F'',
     mmId = JStr ''M'', mfId = JStr ''F'', fmId = JStr ''GM'', ffId = JStr ''GF'',
     mmmId = JStr ''GM'', mmfId = JStr ''GF'', mfmId = JStr ''GM'', mffId = JStr ''GF'',
     fmmId = JStr ''X'', fmfId = JStr ''Y'', ffmId = JStr ''X'', fffId = JStr ''Y''\<rparr>"

definition pedigreeBackcross :: pedigree where
  "pedigreeBackcross =
     [(''C'', \<lparr>parent1 = Some ''M'', parent2 = Some ''F''\<rparr>),
      (''M'', \<lparr>parent1 = Some ''GM'', parent2 = Some ''GF''\<rparr>),
      (''F'', \<lparr>parent1 = Some ''GM'', parent2 = Some ''GF''\<rparr>),
      (''GM'', \<lparr>parent1 = Some ''X'', parent2 = Some ''Y''\<rparr>),
      (''GF'', \<lparr>parent1 = Some ''X'', parent2 = Some ''Y''\<rparr>),
      (''X'', \<lparr>parent1 = None, parent2 = None\<rparr>),
      (''Y'', \<lparr>parent1 = None, parent2 = None\<rparr>),
      (''B'', \<lparr>parent1 = Some ''C'', parent2 = Some ''F''\<rparr>)]"

lemma load_backcross:
  "loadPedigreeFromJson True [] [cowBackcross, bullBackcross] = Inr pedigreeBackcross"
  by (simp add: cowBackcross_def bullBackcross_def pedigreeBackcross_def loader_ev js_ev cong: evcong)

lemma offspring_backcross:
  "calculateOffspringInbreeding pedigreeBackcross {} (Some ''B'') (Some ''C'') = 19/16"
  by (simp add: pedigreeBackcross_def engine_ev cong: evcong)

lemma toFixed8_backcross: "toFixed8 (19/16) = 19/16"
proof -
  have "(19/16 :: real) * 10 ^ 8 + 1/2 = of_int 118750000 + 1/2" by simp
  then have "\<lfloor>(19/16 :: real) * 10 ^ 8 + 1/2\<rfloor> = 118750000"
    by (simp only: floor_add_int) simp
  then show ?thesis by (simp add: toFixed8_def)
qed

lemma getOrCreate_backcross:
  "getOrCreateAnimal pedigreeBackcross (JStr ''C'') = Inr (Some ''C'', pedigreeBackcross)"
  "getOrCreateAnimal pedigreeBackcross (JStr ''B'') = Inr (Some ''B'', pedigreeBackcross)"
  by (simp_all add: pedigreeBackcross_def getOrCreateAnimal_def js_ev Let_def cong: evcong)

lemma pairResult_backcross:
  "pairResult cowBackcross bullBackcross
     = Inr [\<lparr>bullId = ''B'', cowId = ''C'', inbreedingCoefficient = 19/16\<rparr>]"
proof -
  have ids: "jsOr (sId cowBackcross) (sid cowBackcross) = JStr ''C''"
    "jsOr (sId bullBackcross) (sid bullBackcross) = JStr ''B''"
    by (simp_all add: cowBackcross_def bullBackcross_def jsOr_def truthy_def)
  show ?thesis
    unfolding pairResult_def ids Let_def load_backcross
    by (simp add: getOrCreate_backcross offspring_backcross toFixed8_backcross truthy_def)
qed

lemma acyclic_backcross: "acyclic (parentEdges pedigreeBackcross)"
proof (rule acyclicI_order)
  fix a b assume "(a, b) \<in> parentEdges pedigreeBackcross"
  then show "(\<lambda>x. if x = ''B'' then 5 else if x = ''C'' then 4 else if x = ''M'' \<or> x = ''F'' then 3
       else if x = ''GM'' \<or> x = ''GF'' then 2 else (1::nat)) b
     < (\<lambda>x. if x = ''B'' then 5 else if x = ''C'' then 4 else if x = ''M'' \<or> x = ''F'' then 3
       else if x = ''GM'' \<or> x = ''GF'' then 2 else (1::nat)) a"
    by (auto simp: parentEdges_def parentsOf_def pedigreeBackcross_def getParent1_def getParent2_def
        split: if_splits)
qed

subsection \<open>Records with missing-value tokens\<close>

text \<open>
  The example of the entry point's own documentation,
  \<^verbatim>\<open>cow = { sId: 'cow1', mId: 'common_mother' }\<close> and
  \<^verbatim>\<open>bulls = [{ sId: 'bull1', mId: 'common_mother' }]\<close>, and a cow whose \<open>mId\<close> is the
  string \<open>'null'\<close>, every other field being the empty string.
\<close>

definition cowDoc :: pedigreeRecord where
  "cowDoc = absent\<lparr>sId := JStr ''cow1'', mId := JStr ''common_mother''\<rparr>"

definition bullDoc :: pedigreeRecord where
  "bullDoc = absent\<lparr>sId := JStr ''bull1'', mId := JStr ''common_mother''\<rparr>"

definition cowNullToken :: pedigreeRecord where
  "cowNullToken = blank\<lparr>sId := JStr ''C'', mId := JStr ''null''\<rparr>"

definition bullPlain :: pedigreeRecord where
  "bullPlain = blank\<lparr>sId := JStr ''D''\<rparr>"

lemma load_doc:
  "loadPedigreeFromJson ow [] [cowDoc, bullDoc] = Inl (InvalidAnimalId ''undefined'')"
  by (simp add: cowDoc_def bullDoc_def absent_def loader_ev js_ev cong: evcong)

lemma load_nullToken:
  "loadPedigreeFromJson ow [] [cowNullToken, bullPlain] = Inl (InvalidAnimalId ''null'')"
  by (simp add: cowNullToken_def bullPlain_def blank_def loader_ev js_ev cong: evcong)

lemma pairResult_doc: "pairResult cowDoc bullDoc = Inl (InvalidAnimalId ''undefined'')"
proof -
  have "truthy (jsOr (sId bullDoc) (sid bullDoc))"
    by (simp add: bullDoc_def absent_def jsOr_def truthy_def)
  then show ?thesis by (simp add: pairResult_def Let_def load_doc)
qed

lemma pairResult_nullToken: "pairResult cowNullToken bullPlain = Inl (InvalidAnimalId ''null'')"
proof -
  have "truthy (jsOr (sId bullPlain) (sid bullPlain))"
    by (simp add: bullPlain_def blank_def jsOr_def truthy_def)
  then show ?thesis by (simp add: pairResult_def Let_def load_nullToken)
qed

subsection \<open>An unrelated bull for the backcross cow\<close>

definition pedigreePlain :: pedigree where
  "pedigreePlain =
     [(''C'', \<lparr>parent1 = Some ''M'', parent2 = Some ''F''\<rparr>),
      (''M'', \<lparr>parent1 = Some ''GM'', parent2 = Some ''GF''\<rparr>),
      (''F'', \<lparr>parent1 = Some ''GM'', parent2 = Some ''GF''\<rparr>),
      (''GM'', \<lparr>parent1 = Some ''X'', parent2 = Some ''Y''\<rparr>),
      (''GF'', \<lparr>parent1 = Some ''X'', parent2 = Some ''Y''\<rparr>),
      (''X'', \<lparr>parent1 = None, parent2 = None\<rparr>),
      (''Y'', \<lparr>parent1 = None, parent2 = None\<rparr>),
      (''D'', \<lparr>parent1 = None, parent2 = None\<rparr>)]"

lemma load_plain: "loadPedigreeFromJson True [] [cowBackcross, bullPlain] = Inr pedigreePlain"
  by (simp add: cowBackcross_def bullPlain_def blank_def pedigreePlain_def loader_ev js_ev cong: evcong)

lemma offspring_plain:
  "calculateOffspringInbreeding pedigreePlain {} (Some ''D'') (Some ''C'') = 0"
  by (simp add: pedigreePlain_def engine_ev cong: evcong)

lemma toFixed8_zero: "toFixed8 0 = 0"
  by (simp add: toFixed8_def)

lemma pairResult_plain:
  "pairResult cowBackcross bullPlain = Inr [\<lparr>bullId = ''D'', cowId = ''C'', inbreedingCoefficient = 0\<rparr>]"
proof -
  have ids: "jsOr (sId cowBackcross) (sid cowBackcross) = JStr ''C''"
    "jsOr (sId bullPlain) (sid bullPlain) = JStr ''D''"
    by (simp_all add: cowBackcross_def bullPlain_def blank_def jsOr_def truthy_def)
  have goc: "getOrCreateAnimal pedigreePlain (JStr ''C'') = Inr (Some ''C'', pedigreePlain)"
    "getOrCreateAnimal pedigreePlain (JStr ''D'') = Inr (Some ''D'', pedigreePlain)"
    by (simp_all add: pedigreePlain_def getOrCreateAnimal_def js_ev Let_def cong: evcong)
  show ?thesis
    unfolding pairResult_def ids Let_def load_plain
    by (simp add: goc offspring_plain toFixed8_zero truthy_def)
qed

lemma cow_ids:
  "truthy (jsOr (sId cowBackcross) (sid cowBackcross))" "truthy (jsOr (sId cowDoc) (sid cowDoc))"
  "truthy (jsOr (sId cowNullToken) (sid cowNullToken))"
  by (simp_all add: cowBackcross_def cowDoc_def cowNullToken_def absent_def blank_def jsOr_def truthy_def)

lemma batch_backcross:
  "calculateBreedingInbreeding (Some cowBackcross) (Some [bullBackcross])
     = Inr [\<lparr>bullId = ''B'', cowId = ''C'', inbreedingCoefficient = 19/16\<rparr>]"
  by (simp add: calculateBreedingInbreeding_def cow_ids pairResult_backcross)

lemma batch_two:
  "calculateBreedingInbreeding (Some cowBackcross) (Some [bullPlain, bullBackcross])
     = Inr [\<lparr>bullId = ''D'', cowId = ''C'', inbreedingCoefficient = 0\<rparr>,
            \<lparr>bullId = ''B'', cowId = ''C'', inbreedingCoefficient = 19/16\<rparr>]"
  by (simp add: calculateBreedingInbreeding_def cow_ids pairResult_backcross pairResult_plain)

section \<open>Relatedness engine with memoization\<close>

text \<open>
  The calculators of the cached file (full accumulation) and of the independent-path
  file.  They are the same text except in three places, selected by the flag
  \<open>ind\<close>: the independent-path file starts \<open>visited\<close> with the animal's own
  identifier in \<open>getAncestors\<close>, returns early when there is no common ancestor, and adds a
  contribution only when \<open>_arePathsIndependent\<close> holds.

  The state is the calculator object: three caches and the set \<open>currentlyCalculatingF\<close>.
  \<open>localeCompare\<close> is a parameter.  Recursion is bounded by \<open>fuel\<close>, which is spent where
  \<open>calculateInbreeding\<close> calls \<open>calculateOffspringInbreeding\<close>; \<open>None\<close> means that the
  fuel ran out.
\<close>

record 'f calculator =
  inbreedingCache :: "ident \<rightharpoonup> 'f"
  offspringInbreedingCache :: "string \<rightharpoonup> 'f"
  pathCache :: "string \<rightharpoonup> ident list list"
  currentlyCalculatingF :: "ident set"

definition newCalculator :: "'f calculator" where
  "newCalculator = \<lparr>inbreedingCache = Map.empty, offspringInbreedingCache = Map.empty,
     pathCache = Map.empty, currentlyCalculatingF = {}\<rparr>"

type_synonym localeCompare = "ident \<Rightarrow> ident \<Rightarrow> int"

definition cacheKey :: "ident \<Rightarrow> ident \<Rightarrow> string" where
  "cacheKey p1 p2 = p1 @ '','' @ p2"

definition pathKey :: "ident \<Rightarrow> ident \<Rightarrow> string" where
  "pathKey start target = start @ ''->'' @ target"

definition findPathsToAncestorWithCache ::
  "pedigree \<Rightarrow> 'f calculator \<Rightarrow> ident \<Rightarrow> ident \<Rightarrow> ident list list \<times> 'f calculator" where
  "findPathsToAncestorWithCache g st start target =
     (case pathCache st (pathKey start target) of
        Some paths \<Rightarrow> (paths, st)
      | None \<Rightarrow> (let paths = findPathsToAncestorDFS g start target
                 in (paths, st\<lparr>pathCache := (pathCache st)(pathKey start target \<mapsto> paths)\<rparr>)))"

text \<open>\<open>path.slice(1, -1)\<close>: the nodes strictly between the first and the last.\<close>

definition midNodes :: "ident list \<Rightarrow> ident list" where
  "midNodes path = butlast (tl path)"

definition arePathsIndependent :: "ident list \<Rightarrow> ident list \<Rightarrow> bool" where
  "arePathsIndependent path1 path2 =
     (if midNodes path1 = [] then True
      else list_all (\<lambda>node. node \<notin> set (midNodes path1)) (midNodes path2))"

definition addPair :: "bool \<Rightarrow> real \<Rightarrow> ident list \<Rightarrow> real \<Rightarrow> ident list \<Rightarrow> real" where
  "addPair ind fAncestor path1 totalF path2 =
     (if ind then
        (if arePathsIndependent path1 path2 then totalF + contribution fAncestor path1 path2 else totalF)
      else totalF + contribution fAncestor path1 path2)"

definition addPathPairsC ::
  "bool \<Rightarrow> real \<Rightarrow> ident list list \<Rightarrow> ident list list \<Rightarrow> real \<Rightarrow> real" where
  "addPathPairsC ind fAncestor paths1 paths2 totalF =
     foldl (\<lambda>t path1. foldl (addPair ind fAncestor path1) t paths2) totalF paths1"

definition ancestorsFor :: "bool \<Rightarrow> pedigree \<Rightarrow> ident \<Rightarrow> ident list" where
  "ancestorsFor ind g x = (if ind then getAncestorsV1 g x else getAncestors g x)"

definition orderPair :: "localeCompare \<Rightarrow> ident \<Rightarrow> ident \<Rightarrow> ident \<times> ident" where
  "orderPair cmp a b = (if 0 < cmp a b then (b, a) else (a, b))"

function calculateInbreedingC ::
    "localeCompare \<Rightarrow> bool \<Rightarrow> pedigree \<Rightarrow> nat \<Rightarrow> real calculator \<Rightarrow> ident option \<Rightarrow> (real \<times> real calculator) option"
  and calculateOffspringInbreedingC ::
    "localeCompare \<Rightarrow> bool \<Rightarrow> pedigree \<Rightarrow> nat \<Rightarrow> real calculator \<Rightarrow> ident option \<Rightarrow> ident option
       \<Rightarrow> (real \<times> real calculator) option"
  and ancestorLoop ::
    "localeCompare \<Rightarrow> bool \<Rightarrow> pedigree \<Rightarrow> nat \<Rightarrow> ident \<Rightarrow> ident \<Rightarrow> ident list \<Rightarrow> real \<Rightarrow> real calculator
       \<Rightarrow> (real \<times> real calculator) option"
where
  "calculateInbreedingC cmp ind g fuel st None = Some (0, st)"
| "calculateInbreedingC cmp ind g fuel st (Some a) =
     (case inbreedingCache st a of
        Some v \<Rightarrow> Some (v, st)
      | None \<Rightarrow>
         if a \<in> currentlyCalculatingF st then Some (0, st)
         else (let st1 = st\<lparr>currentlyCalculatingF := insert a (currentlyCalculatingF st)\<rparr> in
           (case getParent1 g a of
              None \<Rightarrow> Some (0, st1\<lparr>inbreedingCache := (inbreedingCache st1)(a \<mapsto> 0),
                                   currentlyCalculatingF := currentlyCalculatingF st1 - {a}\<rparr>)
            | Some p1 \<Rightarrow>
               (case getParent2 g a of
                  None \<Rightarrow> Some (0, st1\<lparr>inbreedingCache := (inbreedingCache st1)(a \<mapsto> 0),
                                       currentlyCalculatingF := currentlyCalculatingF st1 - {a}\<rparr>)
                | Some p2 \<Rightarrow>
                   (case fuel of
                      0 \<Rightarrow> None
                    | Suc n \<Rightarrow>
                       (case calculateOffspringInbreedingC cmp ind g n st1 (Some p1) (Some p2) of
                          None \<Rightarrow> None
                        | Some (f, st2) \<Rightarrow>
                           Some (f, st2\<lparr>inbreedingCache := (inbreedingCache st2)(a \<mapsto> f),
                                     currentlyCalculatingF := currentlyCalculatingF st2 - {a}\<rparr>)))))))"
| "calculateOffspringInbreedingC cmp ind g fuel st None q = Some (0, st)"
| "calculateOffspringInbreedingC cmp ind g fuel st (Some a) None = Some (0, st)"
| "calculateOffspringInbreedingC cmp ind g fuel st (Some a) (Some b) =
     (let p1 = fst (orderPair cmp a b); p2 = snd (orderPair cmp a b) in
      (case offspringInbreedingCache st (cacheKey p1 p2) of
         Some v \<Rightarrow> Some (v, st)
       | None \<Rightarrow>
          (let commonAncestors = commonAncestorsOf (set_add (ancestorsFor ind g p1) p1)
                                   (set_add (ancestorsFor ind g p2) p2)
           in if ind \<and> commonAncestors = []
              then Some (0, st\<lparr>offspringInbreedingCache := (offspringInbreedingCache st)(cacheKey p1 p2 \<mapsto> 0)\<rparr>)
              else (case ancestorLoop cmp ind g fuel p1 p2 commonAncestors 0 st of
                      None \<Rightarrow> None
                    | Some (totalF, st') \<Rightarrow>
                       Some (totalF, st'\<lparr>offspringInbreedingCache :=
                                            (offspringInbreedingCache st')(cacheKey p1 p2 \<mapsto> totalF)\<rparr>)))))"
| "ancestorLoop cmp ind g fuel p1 p2 [] totalF st = Some (totalF, st)"
| "ancestorLoop cmp ind g fuel p1 p2 (ancestor # rest) totalF st =
     (case calculateInbreedingC cmp ind g fuel st (Some ancestor) of
        None \<Rightarrow> None
      | Some (fAncestor, st1) \<Rightarrow>
         (let r1 = findPathsToAncestorWithCache g st1 p1 ancestor;
              r2 = findPathsToAncestorWithCache g (snd r1) p2 ancestor
          in ancestorLoop cmp ind g fuel p1 p2 rest
               (addPathPairsC ind fAncestor (fst r1) (fst r2) totalF) (snd r2)))"
  by pat_completeness auto

termination calculateInbreedingC
  by (relation "measures [\<lambda>x. case x of
          Inl (cmp, ind, g, fuel, st, a) \<Rightarrow> 3 * fuel
        | Inr (Inl (cmp, ind, g, fuel, st, p, q)) \<Rightarrow> 3 * fuel + 2
        | Inr (Inr (cmp, ind, g, fuel, p1, p2, xs, t, st)) \<Rightarrow> 3 * fuel + 1,
       \<lambda>x. case x of
          Inl _ \<Rightarrow> 0
        | Inr (Inl _) \<Rightarrow> 0
        | Inr (Inr (cmp, ind, g, fuel, p1, p2, xs, t, st)) \<Rightarrow> length xs]") auto

section \<open>The sum over path pairs\<close>

text \<open>The weight that one pair of paths adds, before the factor \<open>1 + F\<close> of the ancestor.\<close>

definition pairTerm :: "bool \<Rightarrow> ident list \<Rightarrow> ident list \<Rightarrow> real" where
  "pairTerm ind path1 path2 =
     (if ind \<and> \<not> arePathsIndependent path1 path2 then 0
      else (1/2) ^ ((length path1 - 1) + (length path2 - 1) + 1))"

definition pairSum :: "bool \<Rightarrow> ident list list \<Rightarrow> ident list list \<Rightarrow> real" where
  "pairSum ind paths1 paths2 =
     sum_list (map (\<lambda>path1. sum_list (map (pairTerm ind path1) paths2)) paths1)"

lemma addPair_eq:
  "addPair ind f path1 t path2 = t + pairTerm ind path1 path2 * (1 + f)"
  by (simp add: addPair_def pairTerm_def contribution_def)

lemma addPathPairsC_closed:
  "addPathPairsC ind f paths1 paths2 t = t + pairSum ind paths1 paths2 * (1 + f)"
proof -
  have inner: "foldl (addPair ind f path1) t' paths2
      = t' + sum_list (map (pairTerm ind path1) paths2) * (1 + f)" for t' path1
    by (induction paths2 arbitrary: t') (simp_all add: addPair_eq algebra_simps)
  show ?thesis
    unfolding addPathPairsC_def inner pairSum_def
    by (induction paths1 arbitrary: t) (simp_all add: algebra_simps)
qed

lemma pairTerm_nonneg: "0 \<le> pairTerm ind p q"
  by (simp add: pairTerm_def)

lemma pairSum_nonneg: "0 \<le> pairSum ind ps qs"
  unfolding pairSum_def by (intro sum_list_nonneg) (auto intro!: sum_list_nonneg simp: pairTerm_nonneg)

lemma pairTerm_mono: "pairTerm True p q \<le> pairTerm False p q"
  by (simp add: pairTerm_def)

lemma pairSum_mono: "pairSum True ps qs \<le> pairSum False ps qs"
  unfolding pairSum_def
  by (intro sum_list_mono) (auto intro!: sum_list_mono simp: pairTerm_mono)

lemma arePathsIndependent_iff:
  "arePathsIndependent p q \<longleftrightarrow> set (midNodes p) \<inter> set (midNodes q) = {}"
  by (auto simp: arePathsIndependent_def list_all_iff)

lemma pairTerm_commute: "pairTerm ind p q = pairTerm ind q p"
  by (auto simp: pairTerm_def arePathsIndependent_iff add.commute)

lemma sum_list_swap_real:
  "sum_list (map (\<lambda>x. sum_list (map (h x) ys)) xs) = sum_list (map (\<lambda>y. sum_list (map (\<lambda>x. h x y) xs)) ys)"
  for h :: "'a \<Rightarrow> 'b \<Rightarrow> real"
proof (induction xs)
  case Nil
  show ?case by simp
next
  case (Cons x xs)
  show ?case by (simp add: Cons.IH sum_list_addf)
qed

lemma pairSum_commute: "pairSum ind ps qs = pairSum ind qs ps"
  unfolding pairSum_def
  by (subst sum_list_swap_real) (simp add: pairTerm_commute[of ind])

lemma pairSum_full: "pairSum False ps qs = pathsWeight ps * pathsWeight qs / 2"
proof -
  have t: "pairTerm False p q = (1/2) ^ (length p - 1) * ((1/2) ^ (length q - 1) * (1/2))" for p q
    by (simp add: pairTerm_def power_add)
  show ?thesis
    unfolding pairSum_def t sum_list_const_mult sum_list_mult_const' pathsWeight_def[symmetric]
    by simp
qed

lemma addPathPairsC_False: "addPathPairsC False f ps qs t = addPathPairs f ps qs t"
  by (simp add: addPathPairsC_closed addPathPairs_closed pairSum_full)

section \<open>The value of either mode without memoization\<close>

text \<open>
  The coefficient that either mode computes when nothing is cached: the recursion of the
  calculator with the guard set as an argument, for the flag \<open>ind\<close>.  For \<open>ind = False\<close>
  it is the calculator without memoization above; it serves to state what the cached
  calculators return.
\<close>

definition commonList :: "bool \<Rightarrow> pedigree \<Rightarrow> ident \<Rightarrow> ident \<Rightarrow> ident list" where
  "commonList ind g p1 p2 =
     commonAncestorsOf (set_add (ancestorsFor ind g p1) p1) (set_add (ancestorsFor ind g p2) p2)"

function inbreedingU :: "bool \<Rightarrow> pedigree \<Rightarrow> ident set \<Rightarrow> ident \<Rightarrow> real"
  and offspringU :: "bool \<Rightarrow> pedigree \<Rightarrow> ident set \<Rightarrow> ident \<Rightarrow> ident \<Rightarrow> real"
where
  "inbreedingU ind g guard a =
     (if a \<in> guard then 0
      else (case getParent1 g a of None \<Rightarrow> 0
            | Some p1 \<Rightarrow> (case getParent2 g a of None \<Rightarrow> 0
               | Some p2 \<Rightarrow> offspringU ind g (insert a guard) p1 p2)))"
| "offspringU ind g guard p1 p2 =
     sum_list (map (\<lambda>ancestor.
         pairSum ind (findPathsToAncestorDFS g p1 ancestor) (findPathsToAncestorDFS g p2 ancestor)
           * (1 + inbreedingU ind g guard ancestor))
       (commonList ind g p1 p2))"
  by pat_completeness auto

termination inbreedingU
proof (relation "measure (\<lambda>x. case x of Inl (ind, g, guard, a) \<Rightarrow> 2 * guardMeasure g guard
                                 | Inr (ind, g, guard, p, q) \<Rightarrow> 2 * guardMeasure g guard + 1)", goal_cases)
  case 1
  show ?case by simp
next
  case 2
  then show ?case by (auto dest!: guardMeasure_insert)
next
  case 3
  show ?case by simp
qed

declare inbreedingU.simps [simp del]
declare offspringU.simps [simp del]

lemma set_commonList: "set (commonList ind g p1 p2) = closure g p1 \<inter> closure g p2"
  by (cases ind)
    (simp_all add: commonList_def ancestorsFor_def set_commonAncestorsOf set_set_add
      getAncestors_closure getAncestorsV1_closure)

lemma distinct_commonList: "distinct (commonList ind g p1 p2)"
  by (simp add: commonList_def distinct_commonAncestorsOf)

definition termU :: "bool \<Rightarrow> pedigree \<Rightarrow> ident set \<Rightarrow> ident \<Rightarrow> ident \<Rightarrow> ident \<Rightarrow> real" where
  "termU ind g guard p1 p2 a =
     pairSum ind (findPathsToAncestorDFS g p1 a) (findPathsToAncestorDFS g p2 a)
       * (1 + inbreedingU ind g guard a)"

lemma offspringU_list:
  "offspringU ind g guard p1 p2 = sum_list (map (termU ind g guard p1 p2) (commonList ind g p1 p2))"
  by (simp add: offspringU.simps termU_def[abs_def])

lemma offspringU_sum:
  "offspringU ind g guard p1 p2 = sum (termU ind g guard p1 p2) (closure g p1 \<inter> closure g p2)"
  by (simp add: offspringU_list sum_list_distinct_conv_sum_set distinct_commonList set_commonList)

lemma U_nonneg: "0 \<le> inbreedingU ind g guard a" "0 \<le> offspringU ind g guard p q"
proof (induction ind g guard a and ind g guard p q rule: inbreedingU_offspringU.induct)
  case (1 ind g guard a)
  then show ?case by (simp add: inbreedingU.simps split: option.splits)
next
  case (2 ind g guard p1 p2)
  show ?case unfolding offspringU.simps
    by (intro sum_list_nonneg) (auto intro!: mult_nonneg_nonneg pairSum_nonneg add_nonneg_nonneg 2)
qed

lemma termU_nonneg: "0 \<le> termU ind g guard p1 p2 a"
  by (simp add: termU_def pairSum_nonneg U_nonneg)

lemma termU_commute: "termU ind g guard p1 p2 a = termU ind g guard p2 p1 a"
  by (simp add: termU_def pairSum_commute[of ind "findPathsToAncestorDFS g p1 a"])

lemma offspringU_commute: "offspringU ind g guard p q = offspringU ind g guard q p"
proof -
  have "sum (termU ind g guard p q) (closure g p \<inter> closure g q)
      = sum (termU ind g guard q p) (closure g q \<inter> closure g p)"
    by (simp add: Int_commute termU_commute[of ind g guard p q])
  then show ?thesis by (simp add: offspringU_sum)
qed

text \<open>For \<open>ind = False\<close> this is the calculator without memoization.\<close>

lemma U_False:
  "inbreedingU False g guard a = calculateInbreeding g guard (Some a)"
  "offspringU False g guard p q = calculateOffspringInbreeding g guard (Some p) (Some q)"
proof (induction "False" g guard a and "False" g guard p q rule: inbreedingU_offspringU.induct)
  case (1 g guard a)
  then show ?case
    by (simp add: inbreedingU.simps[of False] calculateInbreeding.simps(2) split: option.splits)
next
  case (2 g guard p1 p2)
  have "sum_list (map (termU False g guard p1 p2) (commonList False g p1 p2))
      = sum_list (map (ancestorTerm g guard p1 p2) (commonList False g p1 p2))"
  proof (rule arg_cong[where f = sum_list], rule map_cong[OF refl])
    fix a assume "a \<in> set (commonList False g p1 p2)"
    from 2[OF this] show "termU False g guard p1 p2 a = ancestorTerm g guard p1 p2 a"
      by (simp add: termU_def ancestorTerm_def pairSum_full)
  qed
  then show ?case
    by (simp add: offspringU_list calculateOffspringInbreeding_closed commonList_def ancestorsFor_def)
qed

text \<open>The independent-path value never exceeds the full-accumulation value.\<close>

lemma U_mono:
  "inbreedingU True g guard a \<le> inbreedingU False g guard a"
  "offspringU True g guard p q \<le> offspringU False g guard p q"
proof (induction "False" g guard a and "False" g guard p q rule: inbreedingU_offspringU.induct)
  case (1 g guard a)
  then show ?case
    by (simp add: inbreedingU.simps[of _ g guard a] split: option.splits)
next
  case (2 g guard p1 p2)
  show ?case unfolding offspringU_sum
  proof (rule sum_mono)
    fix a assume "a \<in> closure g p1 \<inter> closure g p2"
    then have "a \<in> set (commonList False g p1 p2)" by (simp add: set_commonList)
    from 2[OF this] have "1 + inbreedingU True g guard a \<le> 1 + inbreedingU False g guard a" by simp
    moreover have "0 \<le> 1 + inbreedingU True g guard a" using U_nonneg(1)[of True g guard a] by simp
    ultimately show "termU True g guard p1 p2 a \<le> termU False g guard p1 p2 a"
      unfolding termU_def by (intro mult_mono pairSum_mono pairSum_nonneg)
  qed
qed

section \<open>Acyclic pedigrees: the guard set never fires\<close>

lemma getParent2_key: "getParent2 g x = Some p \<Longrightarrow> x \<in> fst ` set g"
  by (auto simp: getParent2_def split: option.splits dest: map_of_SomeD intro: rev_image_eqI)

lemma finite_parentEdges: "finite (parentEdges g)"
proof -
  have "parentEdges g \<subseteq> (fst ` set g) \<times> pnodes g"
  proof
    fix e assume "e \<in> parentEdges g"
    then obtain a p where e: "e = (a, p)" and "p \<in> parentsOf g a"
      by (auto simp: parentEdges_def)
    then have "getParent1 g a = Some p \<or> getParent2 g a = Some p"
      by (auto simp: parentsOf_def)
    then show "e \<in> (fst ` set g) \<times> pnodes g"
      using e getParent1_key getParent2_key getParent1_pnodes getParent2_pnodes by blast
  qed
  then show ?thesis by (rule finite_subset) (simp add: finite_pnodes)
qed

lemma closure_refl: "a \<in> closure g a"
  by (simp add: closure_def)

lemma closure_trans: "b \<in> closure g a \<Longrightarrow> closure g b \<subseteq> closure g a"
  by (auto simp: closure_def)

lemma parent_edge:
  "getParent1 g a = Some p \<Longrightarrow> (a, p) \<in> parentEdges g"
  "getParent2 g a = Some p \<Longrightarrow> (a, p) \<in> parentEdges g"
  by (simp_all add: parentEdges_def parentsOf_def)

lemma parent_closure:
  assumes "(a, p) \<in> parentEdges g"
  shows "closure g p \<subseteq> closure g a"
  using assms by (auto simp: closure_def intro: converse_rtrancl_into_rtrancl)

lemma acyclic_parent_notin:
  assumes "acyclic (parentEdges g)" "(a, p) \<in> parentEdges g"
  shows "a \<notin> closure g p"
proof
  assume "a \<in> closure g p"
  then have "(p, a) \<in> (parentEdges g)\<^sup>*" by (simp add: closure_def)
  with assms(2) have "(a, a) \<in> (parentEdges g)\<^sup>+" by (rule rtrancl_into_trancl2)
  with assms(1) show False by (simp add: acyclic_def)
qed

lemma wf_ancestors:
  assumes "acyclic (parentEdges g)"
  shows "wf {(b, a). (a, b) \<in> (parentEdges g)\<^sup>+}"
proof -
  have "wf ((parentEdges g)\<inverse>)"
    using finite_parentEdges assms by (rule finite_acyclic_wf_converse)
  then have "wf (((parentEdges g)\<inverse>)\<^sup>+)" by (rule wf_trancl)
  moreover have "{(b, a). (a, b) \<in> (parentEdges g)\<^sup>+} = ((parentEdges g)\<inverse>)\<^sup>+"
    by (auto simp: trancl_converse)
  ultimately show ?thesis by simp
qed

lemma inbreedingU_guard_free:
  assumes ac: "acyclic (parentEdges g)"
  shows "guard \<inter> closure g a = {} \<Longrightarrow> inbreedingU ind g guard a = inbreedingU ind g {} a"
proof (induction a arbitrary: guard rule: wf_induct_rule[OF wf_ancestors[OF ac]])
  case (1 a)
  have an: "a \<notin> guard" using 1(2) closure_refl[of a g] by blast
  show ?case
  proof (cases "getParent1 g a")
    case None
    then show ?thesis by (simp add: inbreedingU.simps[of ind g _ a] an)
  next
    case (Some p1)
    show ?thesis
    proof (cases "getParent2 g a")
      case None
      with Some show ?thesis by (simp add: inbreedingU.simps[of ind g _ a] an)
    next
      case (Some p2)
      have e1: "(a, p1) \<in> parentEdges g" using \<open>getParent1 g a = Some p1\<close> by (rule parent_edge)
      have eq: "termU ind g G p1 p2 A = termU ind g {} p1 p2 A"
        if A: "A \<in> closure g p1 \<inter> closure g p2" and G: "(G - {a}) \<inter> closure g a = {}" for A G
      proof -
        from A have Ap: "(p1, A) \<in> (parentEdges g)\<^sup>*" by (simp add: closure_def)
        with e1 have aA: "(a, A) \<in> (parentEdges g)\<^sup>+" by (rule rtrancl_into_trancl2)
        have sub: "closure g A \<subseteq> closure g a"
          using A closure_trans[of A g p1] parent_closure[OF e1] by blast
        have "a \<notin> closure g A"
        proof
          assume "a \<in> closure g A"
          then have "(A, a) \<in> (parentEdges g)\<^sup>*" by (simp add: closure_def)
          with aA have "(a, a) \<in> (parentEdges g)\<^sup>+" by (rule trancl_rtrancl_trancl)
          with ac show False by (simp add: acyclic_def)
        qed
        with sub G have "G \<inter> closure g A = {}" by blast
        from 1(1)[of A G, OF _ this] aA
        have "inbreedingU ind g G A = inbreedingU ind g {} A" by simp
        then show ?thesis by (simp add: termU_def)
      qed
      have g1: "(insert a guard - {a}) \<inter> closure g a = {}" using 1(2) by blast
      have g2: "({a} - {a}) \<inter> closure g a = {}" by simp
      have "sum (termU ind g (insert a guard) p1 p2) (closure g p1 \<inter> closure g p2)
          = sum (termU ind g {} p1 p2) (closure g p1 \<inter> closure g p2)"
        by (rule sum.cong[OF refl]) (rule eq[OF _ g1])
      moreover have "sum (termU ind g {a} p1 p2) (closure g p1 \<inter> closure g p2)
          = sum (termU ind g {} p1 p2) (closure g p1 \<inter> closure g p2)"
        by (rule sum.cong[OF refl]) (rule eq[OF _ g2])
      ultimately have "offspringU ind g (insert a guard) p1 p2 = offspringU ind g {a} p1 p2"
        unfolding offspringU_sum by simp
      with \<open>getParent1 g a = Some p1\<close> Some an show ?thesis
        by (simp add: inbreedingU.simps[of ind g _ a])
    qed
  qed
qed

lemma offspringU_guard_free:
  assumes "acyclic (parentEdges g)" "guard \<inter> closure g p = {}"
  shows "offspringU ind g guard p q = offspringU ind g {} p q"
proof -
  have "termU ind g guard p q A = termU ind g {} p q A" if "A \<in> closure g p \<inter> closure g q" for A
  proof -
    from that assms(2) closure_trans[of A g p] have "guard \<inter> closure g A = {}" by blast
    from inbreedingU_guard_free[OF assms(1) this] show ?thesis by (simp add: termU_def)
  qed
  then show ?thesis unfolding offspringU_sum by (intro sum.cong refl)
qed

lemma inbreedingU_parents:
  assumes "acyclic (parentEdges g)" "getParent1 g a = Some p1" "getParent2 g a = Some p2"
  shows "inbreedingU ind g {} a = offspringU ind g {} p1 p2"
proof -
  have "{a} \<inter> closure g p1 = {}"
    using acyclic_parent_notin[OF assms(1) parent_edge(1)[OF assms(2)]] by simp
  from offspringU_guard_free[OF assms(1) this] assms(2,3) show ?thesis
    by (simp add: inbreedingU.simps[of ind g "{}" a])
qed

lemma inbreedingU_no_parents:
  "getParent1 g a = None \<or> getParent2 g a = None \<Longrightarrow> inbreedingU ind g guard a = 0"
  by (auto simp: inbreedingU.simps[of ind g guard a] split: option.splits)

section \<open>The cached calculators return\<close>

declare calculateInbreedingC.simps [simp del]
declare calculateOffspringInbreedingC.simps [simp del]
declare ancestorLoop.simps [simp del]

text \<open>A call returns a value and leaves \<open>currentlyCalculatingF\<close> as it found it.\<close>

definition keeps :: "real calculator \<Rightarrow> (real \<times> real calculator) option \<Rightarrow> bool" where
  "keeps st r = (\<exists>v st'. r = Some (v, st') \<and> currentlyCalculatingF st' = currentlyCalculatingF st)"

lemma findPaths_cache_guard [simp]:
  "currentlyCalculatingF (snd (findPathsToAncestorWithCache g st s t)) = currentlyCalculatingF st"
  by (simp add: findPathsToAncestorWithCache_def Let_def split: option.splits)

lemma engine_total:
  "guardMeasure g (currentlyCalculatingF st) \<le> fuel \<Longrightarrow> keeps st (calculateInbreedingC cmp ind g fuel st a)"
  "guardMeasure g (currentlyCalculatingF st) \<le> fuel
     \<Longrightarrow> keeps st (calculateOffspringInbreedingC cmp ind g fuel st p q)"
  "guardMeasure g (currentlyCalculatingF st) \<le> fuel
     \<Longrightarrow> keeps st (ancestorLoop cmp ind g fuel p1 p2 xs totalF st)"
proof (induction cmp ind g fuel st a and cmp ind g fuel st p q and cmp ind g fuel p1 p2 xs totalF st
    rule: calculateInbreedingC_calculateOffspringInbreedingC_ancestorLoop.induct)
  case (1 cmp ind g fuel st)
  show ?case by (simp add: calculateInbreedingC.simps keeps_def)
next
  case (2 cmp ind g fuel st a)
  let ?st1 = "st\<lparr>currentlyCalculatingF := insert a (currentlyCalculatingF st)\<rparr>"
  show ?case
  proof (cases "inbreedingCache st a")
    case (Some v)
    then show ?thesis by (simp add: calculateInbreedingC.simps keeps_def)
  next
    case None
    note miss = None
    show ?thesis
    proof (cases "a \<in> currentlyCalculatingF st")
      case True
      with miss show ?thesis by (simp add: calculateInbreedingC.simps keeps_def)
    next
      case False
      show ?thesis
      proof (cases "getParent1 g a")
        case None
        with miss False show ?thesis by (simp add: calculateInbreedingC.simps keeps_def Let_def)
      next
        case (Some p1)
        note P1 = Some
        show ?thesis
        proof (cases "getParent2 g a")
          case None
          with miss False P1 show ?thesis by (simp add: calculateInbreedingC.simps keeps_def Let_def)
        next
          case (Some p2)
          have lt: "guardMeasure g (insert a (currentlyCalculatingF st)) < guardMeasure g (currentlyCalculatingF st)"
            using P1 False by (rule guardMeasure_insert)
          with 2(2) obtain n where n: "fuel = Suc n" "guardMeasure g (currentlyCalculatingF ?st1) \<le> n"
            by (cases fuel) auto
          from 2(1)[OF miss False refl P1 Some n(1) n(2)]
          obtain f st2 where r: "calculateOffspringInbreedingC cmp ind g n ?st1 (Some p1) (Some p2) = Some (f, st2)"
            and c: "currentlyCalculatingF st2 = insert a (currentlyCalculatingF st)"
            by (auto simp: keeps_def)
          from miss False P1 Some n(1) r c show ?thesis
            by (simp add: calculateInbreedingC.simps keeps_def Let_def)
        qed
      qed
    qed
  qed
next
  case (3 cmp ind g fuel st q)
  show ?case by (simp add: calculateOffspringInbreedingC.simps keeps_def)
next
  case (4 cmp ind g fuel st a)
  show ?case by (simp add: calculateOffspringInbreedingC.simps keeps_def)
next
  case (5 cmp ind g fuel st a b)
  let ?p1 = "fst (orderPair cmp a b)" and ?p2 = "snd (orderPair cmp a b)"
  let ?common = "commonAncestorsOf (set_add (ancestorsFor ind g ?p1) ?p1) (set_add (ancestorsFor ind g ?p2) ?p2)"
  show ?case
  proof (cases "offspringInbreedingCache st (cacheKey ?p1 ?p2)")
    case (Some v)
    then show ?thesis by (simp add: calculateOffspringInbreedingC.simps keeps_def Let_def)
  next
    case None
    show ?thesis
    proof (cases "ind \<and> ?common = []")
      case True
      with None show ?thesis
        by (cases ind) (simp_all add: calculateOffspringInbreedingC.simps keeps_def Let_def)
    next
      case False
      from 5(1)[OF refl refl None refl False 5(2)]
      obtain t st' where "ancestorLoop cmp ind g fuel ?p1 ?p2 ?common 0 st = Some (t, st')"
        "currentlyCalculatingF st' = currentlyCalculatingF st" by (auto simp: keeps_def)
      with None False show ?thesis
        by (simp add: calculateOffspringInbreedingC.simps keeps_def Let_def)
    qed
  qed
next
  case (6 cmp ind g fuel p1 p2 totalF st)
  show ?case by (simp add: ancestorLoop.simps keeps_def)
next
  case (7 cmp ind g fuel p1 p2 ancestor rest totalF st)
  from 7(1)[OF 7(3)] obtain f st1 where r: "calculateInbreedingC cmp ind g fuel st (Some ancestor) = Some (f, st1)"
    and c: "currentlyCalculatingF st1 = currentlyCalculatingF st" by (auto simp: keeps_def)
  let ?r1 = "findPathsToAncestorWithCache g st1 p1 ancestor"
  let ?r2 = "findPathsToAncestorWithCache g (snd ?r1) p2 ancestor"
  have "guardMeasure g (currentlyCalculatingF (snd ?r2)) \<le> fuel" using 7(3) c by simp
  from 7(2)[OF r refl refl refl this]
  have "keeps (snd ?r2) (ancestorLoop cmp ind g fuel p1 p2 rest (addPathPairsC ind f (fst ?r1) (fst ?r2) totalF) (snd ?r2))" .
  with r c show ?case by (simp add: ancestorLoop.simps keeps_def Let_def)
qed

section \<open>Cache keys and what the caches hold\<close>

text \<open>
  The keys are \<open>p1 + ',' + p2\<close> and \<open>start + '->' + target\<close>.  They determine the pair
  when the first identifier of a pair contains neither a comma nor a hyphen.
\<close>

definition plain :: "ident \<Rightarrow> bool" where
  "plain x = (CHR '','' \<notin> set x \<and> CHR ''-'' \<notin> set x)"

lemma append_sep_inj:
  assumes "c \<notin> set p" "c \<notin> set p'" "p @ c # r = p' @ c # r'"
  shows "p = p' \<and> r = r'"
  using assms
proof (induction p arbitrary: p')
  case Nil
  then show ?case by (cases p') auto
next
  case (Cons x p)
  then show ?case by (cases p') auto
qed

lemma cacheKey_inj:
  "plain p \<Longrightarrow> plain p' \<Longrightarrow> cacheKey p q = cacheKey p' q' \<Longrightarrow> p = p' \<and> q = q'"
  using append_sep_inj[of "CHR '',''" p p' q q'] by (simp add: cacheKey_def plain_def)

lemma pathKey_inj:
  "plain s \<Longrightarrow> plain s' \<Longrightarrow> pathKey s t = pathKey s' t' \<Longrightarrow> s = s' \<and> t = t'"
  using append_sep_inj[of "CHR ''-''" s s' "CHR ''>'' # t" "CHR ''>'' # t'"]
  by (simp add: pathKey_def plain_def)

text \<open>
  Every cache entry is the value that the engine computes without memoization for the
  key it is stored under.
\<close>

definition cacheSound :: "bool \<Rightarrow> pedigree \<Rightarrow> real calculator \<Rightarrow> bool" where
  "cacheSound ind g st =
     ((\<forall>a v. inbreedingCache st a = Some v \<longrightarrow> v = inbreedingU ind g {} a)
    \<and> (\<forall>k v. offspringInbreedingCache st k = Some v \<longrightarrow>
           (\<exists>p q. plain p \<and> k = cacheKey p q \<and> v = offspringU ind g {} p q))
    \<and> (\<forall>k ps. pathCache st k = Some ps \<longrightarrow>
           (\<exists>s t. plain s \<and> k = pathKey s t \<and> ps = findPathsToAncestorDFS g s t)))"

lemma cacheSound_new: "cacheSound ind g newCalculator"
  by (simp add: cacheSound_def newCalculator_def)

lemma cacheSound_guard [simp]:
  "cacheSound ind g (st\<lparr>currentlyCalculatingF := S\<rparr>) = cacheSound ind g st"
  by (simp add: cacheSound_def)

lemma cacheSound_inbreeding:
  "cacheSound ind g st \<Longrightarrow> v = inbreedingU ind g {} a
     \<Longrightarrow> cacheSound ind g (st\<lparr>inbreedingCache := (inbreedingCache st)(a \<mapsto> v)\<rparr>)"
  by (simp add: cacheSound_def)

lemma cacheSound_offspring:
  "cacheSound ind g st \<Longrightarrow> plain p \<Longrightarrow> v = offspringU ind g {} p q
     \<Longrightarrow> cacheSound ind g (st\<lparr>offspringInbreedingCache := (offspringInbreedingCache st)(cacheKey p q \<mapsto> v)\<rparr>)"
  unfolding cacheSound_def by (simp, blast)

lemma cacheSound_hit_inbreeding:
  "cacheSound ind g st \<Longrightarrow> inbreedingCache st a = Some v \<Longrightarrow> v = inbreedingU ind g {} a"
  by (simp add: cacheSound_def)

lemma cacheSound_hit_offspring:
  assumes "cacheSound ind g st" "offspringInbreedingCache st (cacheKey p q) = Some v" "plain p"
  shows "v = offspringU ind g {} p q"
proof -
  from assms(1,2) obtain p' q' where "plain p'" "cacheKey p q = cacheKey p' q'"
    "v = offspringU ind g {} p' q'" unfolding cacheSound_def by blast
  with cacheKey_inj[OF assms(3), of p' q q'] show ?thesis by simp
qed

lemma findPaths_cache_sound:
  assumes "cacheSound ind g st" "plain s"
  shows "fst (findPathsToAncestorWithCache g st s t) = findPathsToAncestorDFS g s t"
    and "cacheSound ind g (snd (findPathsToAncestorWithCache g st s t))"
proof -
  show "fst (findPathsToAncestorWithCache g st s t) = findPathsToAncestorDFS g s t"
  proof (cases "pathCache st (pathKey s t)")
    case None
    then show ?thesis by (simp add: findPathsToAncestorWithCache_def Let_def)
  next
    case (Some ps)
    with assms(1) obtain s' t' where "plain s'" "pathKey s t = pathKey s' t'"
      "ps = findPathsToAncestorDFS g s' t'" unfolding cacheSound_def by blast
    with pathKey_inj[OF assms(2), of s' t t'] Some show ?thesis
      by (simp add: findPathsToAncestorWithCache_def)
  qed
  show "cacheSound ind g (snd (findPathsToAncestorWithCache g st s t))"
  proof (cases "pathCache st (pathKey s t)")
    case None
    with assms show ?thesis
      unfolding cacheSound_def by (simp add: findPathsToAncestorWithCache_def Let_def, blast)
  next
    case (Some ps)
    with assms(1) show ?thesis by (simp add: findPathsToAncestorWithCache_def)
  qed
qed

section \<open>On an acyclic pedigree the caches are transparent\<close>

text \<open>
  A call that returns gives the expected value, keeps the caches sound and leaves
  \<open>currentlyCalculatingF\<close> as it found it.
\<close>

definition agrees :: "bool \<Rightarrow> pedigree \<Rightarrow> real calculator \<Rightarrow> real \<Rightarrow> (real \<times> real calculator) option \<Rightarrow> bool" where
  "agrees ind g st expected r =
     (case r of None \<Rightarrow> True
      | Some (v, st') \<Rightarrow> v = expected \<and> cacheSound ind g st'
          \<and> currentlyCalculatingF st' = currentlyCalculatingF st)"

lemma agreesI:
  "v = expected \<Longrightarrow> cacheSound ind g st' \<Longrightarrow> currentlyCalculatingF st' = currentlyCalculatingF st
     \<Longrightarrow> agrees ind g st expected (Some (v, st'))"
  by (simp add: agrees_def)

lemma agrees_None [simp]: "agrees ind g st expected None"
  by (simp add: agrees_def)

lemma agreesD:
  assumes "agrees ind g st expected r" "r = Some (v, st')"
  shows "v = expected" "cacheSound ind g st'" "currentlyCalculatingF st' = currentlyCalculatingF st"
  using assms by (simp_all add: agrees_def)

lemma orderPair_cases:
  "orderPair cmp a b = (a, b) \<or> orderPair cmp a b = (b, a)"
  by (simp add: orderPair_def)

lemma calcOffC_hit:
  assumes "offspringInbreedingCache st (cacheKey (fst (orderPair cmp a b)) (snd (orderPair cmp a b))) = Some v"
  shows "calculateOffspringInbreedingC cmp ind g fuel st (Some a) (Some b) = Some (v, st)"
  unfolding calculateOffspringInbreedingC.simps Let_def by (simp only: assms option.case)

lemma calcOffC_early:
  assumes "offspringInbreedingCache st (cacheKey (fst (orderPair cmp a b)) (snd (orderPair cmp a b))) = None"
    and "ind \<and> commonList ind g (fst (orderPair cmp a b)) (snd (orderPair cmp a b)) = []"
  shows "calculateOffspringInbreedingC cmp ind g fuel st (Some a) (Some b)
    = Some (0, st\<lparr>offspringInbreedingCache := (offspringInbreedingCache st)
         (cacheKey (fst (orderPair cmp a b)) (snd (orderPair cmp a b)) \<mapsto> 0)\<rparr>)"
  unfolding calculateOffspringInbreedingC.simps Let_def commonList_def[symmetric]
  by (simp only: assms(1) option.case if_P[OF assms(2)])

lemma calcOffC_loop:
  assumes "offspringInbreedingCache st (cacheKey (fst (orderPair cmp a b)) (snd (orderPair cmp a b))) = None"
    and "\<not> (ind \<and> commonList ind g (fst (orderPair cmp a b)) (snd (orderPair cmp a b)) = [])"
  shows "calculateOffspringInbreedingC cmp ind g fuel st (Some a) (Some b)
    = (case ancestorLoop cmp ind g fuel (fst (orderPair cmp a b)) (snd (orderPair cmp a b))
              (commonList ind g (fst (orderPair cmp a b)) (snd (orderPair cmp a b))) 0 st of
         None \<Rightarrow> None
       | Some (totalF, st') \<Rightarrow>
           Some (totalF, st'\<lparr>offspringInbreedingCache := (offspringInbreedingCache st')
              (cacheKey (fst (orderPair cmp a b)) (snd (orderPair cmp a b)) \<mapsto> totalF)\<rparr>))"
  unfolding calculateOffspringInbreedingC.simps Let_def commonList_def[symmetric]
  by (simp only: assms(1) option.case if_not_P[OF assms(2)])

lemma engine_sound:
  "a = Some x \<Longrightarrow> acyclic (parentEdges g) \<Longrightarrow> cacheSound ind g st
     \<Longrightarrow> currentlyCalculatingF st \<inter> closure g x = {} \<Longrightarrow> (\<And>z. z \<in> closure g x \<Longrightarrow> plain z)
     \<Longrightarrow> agrees ind g st (inbreedingU ind g {} x) (calculateInbreedingC cmp ind g fuel st a)"
  "p = Some x \<Longrightarrow> q = Some y \<Longrightarrow> acyclic (parentEdges g) \<Longrightarrow> cacheSound ind g st
     \<Longrightarrow> currentlyCalculatingF st \<inter> (closure g x \<union> closure g y) = {}
     \<Longrightarrow> (\<And>z. z \<in> closure g x \<union> closure g y \<Longrightarrow> plain z)
     \<Longrightarrow> agrees ind g st (offspringU ind g {} x y) (calculateOffspringInbreedingC cmp ind g fuel st p q)"
  "acyclic (parentEdges g) \<Longrightarrow> cacheSound ind g st
     \<Longrightarrow> currentlyCalculatingF st \<inter> (closure g p1 \<union> closure g p2) = {}
     \<Longrightarrow> (\<And>z. z \<in> closure g p1 \<union> closure g p2 \<Longrightarrow> plain z)
     \<Longrightarrow> set xs \<subseteq> closure g p1 \<inter> closure g p2
     \<Longrightarrow> agrees ind g st (totalF + sum_list (map (termU ind g {} p1 p2) xs))
           (ancestorLoop cmp ind g fuel p1 p2 xs totalF st)"
proof (induction cmp ind g fuel st a and cmp ind g fuel st p q and cmp ind g fuel p1 p2 xs totalF st
    arbitrary: x and x y and
    rule: calculateInbreedingC_calculateOffspringInbreedingC_ancestorLoop.induct)
  case (1 cmp ind g fuel st)
  then show ?case by simp
next
  case (2 cmp ind g fuel st a)
  from 2(2) have xa: "x = a" by simp
  note ac = 2(3) and snd = 2(4) and dis = 2(5)[unfolded xa] and pl = 2(6)[unfolded xa]
  let ?st1 = "st\<lparr>currentlyCalculatingF := insert a (currentlyCalculatingF st)\<rparr>"
  have ang: "a \<notin> currentlyCalculatingF st" using dis closure_refl[of a g] by blast
  have "agrees ind g st (inbreedingU ind g {} a) (calculateInbreedingC cmp ind g fuel st (Some a))"
  proof (cases "inbreedingCache st a")
    case (Some v)
    with cacheSound_hit_inbreeding[OF snd Some] snd show ?thesis
      by (simp add: calculateInbreedingC.simps agrees_def)
  next
    case None
    note miss = None
    have fin: "agrees ind g st (inbreedingU ind g {} a)
        (Some (f, s2\<lparr>inbreedingCache := (inbreedingCache s2)(a \<mapsto> f),
                     currentlyCalculatingF := currentlyCalculatingF s2 - {a}\<rparr>))"
      if "f = inbreedingU ind g {} a" "cacheSound ind g s2"
        "currentlyCalculatingF s2 = insert a (currentlyCalculatingF st)" for f s2
      using that ang by (intro agreesI) (simp_all add: cacheSound_inbreeding)
    show ?thesis
    proof (cases "getParent1 g a")
      case None
      have "agrees ind g st (inbreedingU ind g {} a)
        (Some (0, ?st1\<lparr>inbreedingCache := (inbreedingCache ?st1)(a \<mapsto> 0),
                     currentlyCalculatingF := currentlyCalculatingF ?st1 - {a}\<rparr>))"
        by (rule fin) (simp_all add: inbreedingU_no_parents None snd)
      with miss ang None show ?thesis by (simp add: calculateInbreedingC.simps Let_def)
    next
      case (Some p1)
      note P1 = Some
      show ?thesis
      proof (cases "getParent2 g a")
        case None
        have "agrees ind g st (inbreedingU ind g {} a)
          (Some (0, ?st1\<lparr>inbreedingCache := (inbreedingCache ?st1)(a \<mapsto> 0),
                       currentlyCalculatingF := currentlyCalculatingF ?st1 - {a}\<rparr>))"
          by (rule fin) (simp_all add: inbreedingU_no_parents None snd)
        with miss ang P1 None show ?thesis by (simp add: calculateInbreedingC.simps Let_def)
      next
        case (Some p2)
        show ?thesis
        proof (cases fuel)
          case 0
          with miss ang P1 Some show ?thesis by (simp add: calculateInbreedingC.simps Let_def)
        next
          case (Suc n)
          have e1: "(a, p1) \<in> parentEdges g" and e2: "(a, p2) \<in> parentEdges g"
            using P1 Some by (simp_all add: parent_edge)
          have sub: "closure g p1 \<union> closure g p2 \<subseteq> closure g a"
            using parent_closure[OF e1] parent_closure[OF e2] by blast
          have an: "a \<notin> closure g p1 \<union> closure g p2"
            using acyclic_parent_notin[OF ac e1] acyclic_parent_notin[OF ac e2] by simp
          have d1: "currentlyCalculatingF ?st1 \<inter> (closure g p1 \<union> closure g p2) = {}"
            using dis sub an by auto
          have IH: "agrees ind g ?st1 (offspringU ind g {} p1 p2)
              (calculateOffspringInbreedingC cmp ind g n ?st1 (Some p1) (Some p2))"
            using sub pl by (intro 2(1)[OF miss ang refl P1 Some Suc refl refl ac _ d1]) (auto simp: snd)
          show ?thesis
          proof (cases "calculateOffspringInbreedingC cmp ind g n ?st1 (Some p1) (Some p2)")
            case None
            with miss ang P1 Some Suc show ?thesis by (simp add: calculateInbreedingC.simps Let_def)
          next
            case (Some r)
            obtain f s2 where r: "r = (f, s2)" by (cases r)
            from agreesD[OF IH Some[unfolded r]]
            have "f = offspringU ind g {} p1 p2" "cacheSound ind g s2"
              "currentlyCalculatingF s2 = insert a (currentlyCalculatingF st)" by simp_all
            with inbreedingU_parents[OF ac P1 \<open>getParent2 g a = Some p2\<close>, of ind]
            have "agrees ind g st (inbreedingU ind g {} a)
              (Some (f, s2\<lparr>inbreedingCache := (inbreedingCache s2)(a \<mapsto> f),
                     currentlyCalculatingF := currentlyCalculatingF s2 - {a}\<rparr>))"
              by (intro fin) simp_all
            with miss ang P1 \<open>getParent2 g a = Some p2\<close> Suc Some r show ?thesis
              by (simp add: calculateInbreedingC.simps Let_def)
          qed
        qed
      qed
    qed
  qed
  then show ?case by (simp add: xa)
next
  case (3 cmp ind g fuel st q)
  then show ?case by simp
next
  case (4 cmp ind g fuel st a)
  then show ?case by simp
next
  case (5 cmp ind g fuel st a b)
  from 5(2,3) have xy: "x = a" "y = b" by simp_all
  note ac = 5(4) and snd = 5(5) and dis = 5(6)[unfolded xy] and pl = 5(7)[unfolded xy]
  let ?p1 = "fst (orderPair cmp a b)" and ?p2 = "snd (orderPair cmp a b)"
  let ?common = "commonAncestorsOf (set_add (ancestorsFor ind g ?p1) ?p1) (set_add (ancestorsFor ind g ?p2) ?p2)"
  have cl: "closure g ?p1 \<union> closure g ?p2 = closure g a \<union> closure g b"
    using orderPair_cases[of cmp a b] by auto
  have spec: "offspringU ind g {} ?p1 ?p2 = offspringU ind g {} a b"
    using orderPair_cases[of cmp a b] offspringU_commute[of ind g "{}" b a] by auto
  have pp: "plain ?p1" using pl[of ?p1] cl closure_refl[of ?p1 g] by blast
  have cm: "?common = commonList ind g ?p1 ?p2" by (simp add: commonList_def)
  have "agrees ind g st (offspringU ind g {} a b)
      (calculateOffspringInbreedingC cmp ind g fuel st (Some a) (Some b))"
  proof (cases "offspringInbreedingCache st (cacheKey ?p1 ?p2)")
    case (Some v)
    from cacheSound_hit_offspring[OF snd Some pp] spec snd show ?thesis
      unfolding calcOffC_hit[OF Some] by (simp add: agrees_def)
  next
    case None
    show ?thesis
    proof (cases "ind \<and> commonList ind g ?p1 ?p2 = []")
      case True
      then have "commonList ind g ?p1 ?p2 = []" by blast
      then have "offspringU ind g {} ?p1 ?p2 = 0" by (simp add: offspringU_list)
      then show ?thesis
        unfolding calcOffC_early[OF None True] using spec
        by (intro agreesI cacheSound_offspring snd pp) simp_all
    next
      case False
      have F': "\<not> (ind \<and> ?common = [])" unfolding cm by (rule False)
      have IH: "agrees ind g st (0 + sum_list (map (termU ind g {} ?p1 ?p2) ?common))
          (ancestorLoop cmp ind g fuel ?p1 ?p2 ?common 0 st)"
        using dis pl
        by (intro 5(1)[OF refl refl None refl F' ac snd]) (auto simp: cl cm set_commonList)
      show ?thesis
      proof (cases "ancestorLoop cmp ind g fuel ?p1 ?p2 (commonList ind g ?p1 ?p2) 0 st")
        case None
        then show ?thesis
          unfolding calcOffC_loop[OF \<open>offspringInbreedingCache st (cacheKey ?p1 ?p2) = None\<close> False]
          by simp
      next
        case (Some r)
        obtain t s' where r: "r = (t, s')" by (cases r)
        from agreesD[OF IH Some[unfolded r cm[symmetric]]]
        have t: "t = offspringU ind g {} ?p1 ?p2" and s': "cacheSound ind g s'"
          and c: "currentlyCalculatingF s' = currentlyCalculatingF st"
          by (simp_all add: offspringU_list cm)
        have "agrees ind g st (offspringU ind g {} a b)
          (Some (t, s'\<lparr>offspringInbreedingCache := (offspringInbreedingCache s')(cacheKey ?p1 ?p2 \<mapsto> t)\<rparr>))"
          using t spec c by (intro agreesI cacheSound_offspring s' pp) simp_all
        then show ?thesis
          unfolding calcOffC_loop[OF \<open>offspringInbreedingCache st (cacheKey ?p1 ?p2) = None\<close> False]
          by (simp add: Some r)
      qed
    qed
  qed
  then show ?case by (simp add: xy)
next
  case (6 cmp ind g fuel p1 p2 totalF st)
  then show ?case by (simp add: ancestorLoop.simps agrees_def)
next
  case (7 cmp ind g fuel p1 p2 ancestor rest totalF st)
  note ac = 7(3) and snd = 7(4) and dis = 7(5) and pl = 7(6) and sub = 7(7)
  have A: "ancestor \<in> closure g p1" "ancestor \<in> closure g p2" using sub by simp_all
  have clA: "closure g ancestor \<subseteq> closure g p1" using A(1) by (rule closure_trans)
  have IH1: "agrees ind g st (inbreedingU ind g {} ancestor) (calculateInbreedingC cmp ind g fuel st (Some ancestor))"
    using dis pl clA by (intro 7(1)[OF refl ac snd]) auto
  show ?case
  proof (cases "calculateInbreedingC cmp ind g fuel st (Some ancestor)")
    case None
    then show ?thesis by (simp add: ancestorLoop.simps)
  next
    case (Some r)
    obtain f st1 where r: "r = (f, st1)" by (cases r)
    from agreesD[OF IH1 Some[unfolded r]]
    have f: "f = inbreedingU ind g {} ancestor" and s1: "cacheSound ind g st1"
      and c1: "currentlyCalculatingF st1 = currentlyCalculatingF st" by simp_all
    let ?r1 = "findPathsToAncestorWithCache g st1 p1 ancestor"
    let ?r2 = "findPathsToAncestorWithCache g (snd ?r1) p2 ancestor"
    have pp: "plain p1" "plain p2" using pl closure_refl by blast+
    have r1: "fst ?r1 = findPathsToAncestorDFS g p1 ancestor" "cacheSound ind g (snd ?r1)"
      using findPaths_cache_sound[OF s1 pp(1)] by simp_all
    have r2: "fst ?r2 = findPathsToAncestorDFS g p2 ancestor" "cacheSound ind g (snd ?r2)"
      using findPaths_cache_sound[OF r1(2) pp(2)] by simp_all
    have c2: "currentlyCalculatingF (snd ?r2) = currentlyCalculatingF st" using c1 by simp
    have IH2: "agrees ind g (snd ?r2)
        (addPathPairsC ind f (fst ?r1) (fst ?r2) totalF + sum_list (map (termU ind g {} p1 p2) rest))
        (ancestorLoop cmp ind g fuel p1 p2 rest (addPathPairsC ind f (fst ?r1) (fst ?r2) totalF) (snd ?r2))"
      using dis pl sub by (intro 7(2)[OF Some[unfolded r] refl refl refl ac r2(2)]) (auto simp: c1)
    have val: "addPathPairsC ind f (fst ?r1) (fst ?r2) totalF + sum_list (map (termU ind g {} p1 p2) rest)
        = totalF + sum_list (map (termU ind g {} p1 p2) (ancestor # rest))"
      by (simp add: addPathPairsC_closed r1(1) r2(1) f termU_def)
    from IH2 show ?thesis
      unfolding val using Some r c2
      by (auto simp: ancestorLoop.simps Let_def agrees_def split: option.splits prod.splits)
  qed
qed

section \<open>What the cached calculators return on an acyclic pedigree\<close>

text \<open>The call returns, and its value is \<open>v\<close>.\<close>

definition returnsValue :: "('f \<times> 'f calculator) option \<Rightarrow> 'f \<Rightarrow> bool" where
  "returnsValue r v = (case r of None \<Rightarrow> False | Some res \<Rightarrow> fst res = v)"

lemma guardMeasure_empty: "guardMeasure g {} \<le> length g"
proof -
  have "card (fst ` set g) \<le> card (set g)" by (rule card_image_le) simp
  also have "\<dots> \<le> length g" by (rule card_length)
  finally show ?thesis by (simp add: guardMeasure_def)
qed

lemma newCalculator_guard [simp]: "currentlyCalculatingF newCalculator = {}"
  by (simp add: newCalculator_def)

lemma offspring_transparent:
  assumes "acyclic (parentEdges g)" "\<And>z. z \<in> closure g a \<union> closure g b \<Longrightarrow> plain z" "length g \<le> fuel"
  shows "returnsValue (calculateOffspringInbreedingC cmp ind g fuel newCalculator (Some a) (Some b))
           (offspringU ind g {} a b)"
proof -
  have "guardMeasure g (currentlyCalculatingF newCalculator) \<le> fuel"
    using guardMeasure_empty[of g] assms(3) by simp
  from engine_total(2)[OF this, of cmp ind "Some a" "Some b"]
  obtain v st' where r: "calculateOffspringInbreedingC cmp ind g fuel newCalculator (Some a) (Some b) = Some (v, st')"
    by (auto simp: keeps_def)
  have "agrees ind g newCalculator (offspringU ind g {} a b)
      (calculateOffspringInbreedingC cmp ind g fuel newCalculator (Some a) (Some b))"
    using assms(2) by (intro engine_sound(2)[OF refl refl assms(1) cacheSound_new]) auto
  from agreesD(1)[OF this r] r show ?thesis by (simp add: returnsValue_def)
qed

lemma inbreeding_transparent:
  assumes "acyclic (parentEdges g)" "\<And>z. z \<in> closure g a \<Longrightarrow> plain z" "length g \<le> fuel"
  shows "returnsValue (calculateInbreedingC cmp ind g fuel newCalculator (Some a)) (inbreedingU ind g {} a)"
proof -
  have "guardMeasure g (currentlyCalculatingF newCalculator) \<le> fuel"
    using guardMeasure_empty[of g] assms(3) by simp
  from engine_total(1)[OF this, of cmp ind "Some a"]
  obtain v st' where r: "calculateInbreedingC cmp ind g fuel newCalculator (Some a) = Some (v, st')"
    by (auto simp: keeps_def)
  have "agrees ind g newCalculator (inbreedingU ind g {} a)
      (calculateInbreedingC cmp ind g fuel newCalculator (Some a))"
    using assms(2) by (intro engine_sound(1)[OF refl assms(1) cacheSound_new]) auto
  from agreesD(1)[OF this r] r show ?thesis by (simp add: returnsValue_def)
qed

lemma returnsValue_unique: "returnsValue r v \<Longrightarrow> returnsValue r w \<Longrightarrow> v = w"
  by (auto simp: returnsValue_def split: option.splits)

subsection \<open>The two modes when every common ancestor is a founder\<close>

lemma founder_parentsOf: "founder g m \<Longrightarrow> parentsOf g m = {}"
  by (simp add: founder_def parentsOf_def)

lemma isPath_inner_has_parent:
  "isPath g p \<Longrightarrow> m \<in> set (butlast p) \<Longrightarrow> parentsOf g m \<noteq> {}"
  by (induction g p rule: isPath.induct) (auto split: if_splits)

lemma isPath_member_reach:
  "isPath g p \<Longrightarrow> p \<noteq> [] \<Longrightarrow> m \<in> set p \<Longrightarrow> (hd p, m) \<in> (parentEdges g)\<^sup>*"
proof (induction g p rule: isPath.induct)
  case (3 g x y ys)
  show ?case
  proof (cases "m = x")
    case True
    then show ?thesis by simp
  next
    case False
    with 3 have "(y, m) \<in> (parentEdges g)\<^sup>*" by simp
    moreover have "(x, y) \<in> parentEdges g" using 3(2) by (simp add: parentEdges_def)
    ultimately show ?thesis by (simp add: converse_rtrancl_into_rtrancl)
  qed
qed simp_all

lemma midNodes_subset: "set (midNodes p) \<subseteq> set (butlast p)"
  by (cases p) (auto simp: midNodes_def dest: in_set_butlastD)

lemma founders_paths_independent:
  assumes "\<And>m. m \<in> closure g a \<inter> closure g b \<Longrightarrow> founder g m"
    "p \<in> simplePaths g a t" "q \<in> simplePaths g b t"
  shows "arePathsIndependent p q"
proof (rule ccontr)
  assume "\<not> arePathsIndependent p q"
  then obtain m where m: "m \<in> set (midNodes p)" "m \<in> set (midNodes q)"
    by (auto simp: arePathsIndependent_iff)
  from assms(2,3) have p: "p \<noteq> []" "hd p = a" "isPath g p" and q: "q \<noteq> []" "hd q = b" "isPath g q"
    by (simp_all add: simplePaths_def)
  from m midNodes_subset have mb: "m \<in> set (butlast p)" "m \<in> set (butlast q)" by blast+
  then have "m \<in> set p" "m \<in> set q" by (auto dest: in_set_butlastD)
  with isPath_member_reach[OF p(3,1)] isPath_member_reach[OF q(3,1)] p(2) q(2)
  have "m \<in> closure g a \<inter> closure g b" by (simp add: closure_def)
  from assms(1)[OF this] isPath_inner_has_parent[OF p(3) mb(1)] show False
    by (simp add: founder_parentsOf)
qed

lemma pairSum_independent:
  assumes "\<And>p q. p \<in> set ps \<Longrightarrow> q \<in> set qs \<Longrightarrow> arePathsIndependent p q"
  shows "pairSum True ps qs = pairSum False ps qs"
proof -
  have inner: "map (pairTerm True p) qs = map (pairTerm False p) qs" if "p \<in> set ps" for p
    by (rule map_cong[OF refl]) (simp add: pairTerm_def assms[OF that])
  have "map (\<lambda>p. sum_list (map (pairTerm True p) qs)) ps
      = map (\<lambda>p. sum_list (map (pairTerm False p) qs)) ps"
    by (rule map_cong[OF refl]) (simp add: inner)
  then show ?thesis unfolding pairSum_def by (rule arg_cong)
qed

lemma founders_modes_equal:
  assumes "\<And>m. m \<in> closure g a \<inter> closure g b \<Longrightarrow> founder g m"
  shows "offspringU True g guard a b = offspringU False g guard a b"
  unfolding offspringU_sum
proof (rule sum.cong[OF refl])
  fix t assume t: "t \<in> closure g a \<inter> closure g b"
  from assms[OF t] have "inbreedingU True g guard t = 0" "inbreedingU False g guard t = 0"
    by (simp_all add: inbreedingU_no_parents founder_def)
  moreover have "pairSum True (findPathsToAncestorDFS g a t) (findPathsToAncestorDFS g b t)
      = pairSum False (findPathsToAncestorDFS g a t) (findPathsToAncestorDFS g b t)"
    by (rule pairSum_independent) (rule founders_paths_independent[OF assms], simp_all add: findPaths_simplePaths)
  ultimately show "termU True g guard a b t = termU False g guard a b t"
    by (simp add: termU_def)
qed

section \<open>Evaluation of the cached calculators on concrete pedigrees\<close>

lemmas cached_ev = calculateInbreedingC.simps calculateOffspringInbreedingC.simps ancestorLoop.simps
  findPathsToAncestorWithCache_def cacheKey_def pathKey_def addPathPairsC_closed pairSum_def pairTerm_def
  arePathsIndependent_def midNodes_def ancestorsFor_def orderPair_def newCalculator_def
  findPathsToAncestorDFS_def dfsLoop.simps(2) processParentForDFS_def getAncestors_def getAncestorsV1_def
  initQueue_def bfsLoop.simps(2) enqueue_def set_add_def commonAncestorsOf_def getParent1_def
  getParent2_def Let_def returnsValue_def

lemmas spec_ev = offspringU.simps inbreedingU.simps commonList_def pairSum_def pairTerm_def
  arePathsIndependent_def midNodes_def ancestorsFor_def
  findPathsToAncestorDFS_def dfsLoop.simps(2) processParentForDFS_def getAncestors_def getAncestorsV1_def
  initQueue_def bfsLoop.simps(2) enqueue_def set_add_def commonAncestorsOf_def getParent1_def
  getParent2_def Let_def

text \<open>
  \<open>localeCompare\<close> is a parameter of the model.  The examples use the comparison by code
  units, which orders their identifiers (ASCII letters of one case, digits, \<open>-\<close> and \<open>>\<close>)
  as \<open>localeCompare\<close> does.
\<close>

fun codeUnitCompare :: localeCompare where
  "codeUnitCompare [] [] = 0"
| "codeUnitCompare [] (y # ys) = - 1"
| "codeUnitCompare (x # xs) [] = 1"
| "codeUnitCompare (x # xs) (y # ys) =
     (if (of_char x :: nat) < of_char y then - 1
      else if (of_char y :: nat) < of_char x then 1
      else codeUnitCompare xs ys)"

subsection \<open>Half siblings through a dam whose parents are known\<close>

definition pedigreeHalfSibs :: pedigree where
  "pedigreeHalfSibs =
     [(''B'', \<lparr>parent1 = Some ''X'', parent2 = Some ''S''\<rparr>),
      (''C'', \<lparr>parent1 = Some ''X'', parent2 = Some ''T''\<rparr>),
      (''X'', \<lparr>parent1 = Some ''M0'', parent2 = Some ''F0''\<rparr>)]"

lemma halfSibs_full:
  "returnsValue (calculateOffspringInbreedingC codeUnitCompare False pedigreeHalfSibs 3 newCalculator
     (Some ''B'') (Some ''C'')) (3/16)"
  by (simp add: pedigreeHalfSibs_def cached_ev cong: evcong)

lemma halfSibs_independent:
  "returnsValue (calculateOffspringInbreedingC codeUnitCompare True pedigreeHalfSibs 3 newCalculator
     (Some ''B'') (Some ''C'')) (1/8)"
  by (simp add: pedigreeHalfSibs_def cached_ev cong: evcong)

lemma halfSibs_closure:
  "closure pedigreeHalfSibs ''B'' \<inter> closure pedigreeHalfSibs ''C'' = {''X'', ''M0'', ''F0''}"
  unfolding getAncestors_closure[symmetric]
  by (auto simp: pedigreeHalfSibs_def engine_ev cong: evcong)

lemma halfSibs_not_inbred:
  "returnsValue (calculateInbreedingC codeUnitCompare ind pedigreeHalfSibs 3 newCalculator (Some ''X'')) 0"
  "returnsValue (calculateInbreedingC codeUnitCompare ind pedigreeHalfSibs 3 newCalculator (Some ''M0'')) 0"
  "returnsValue (calculateInbreedingC codeUnitCompare ind pedigreeHalfSibs 3 newCalculator (Some ''F0'')) 0"
  by (cases ind; simp add: pedigreeHalfSibs_def cached_ev cong: evcong)+

subsection \<open>A pedigree with a cycle\<close>




definition pedigreeLoop :: pedigree where
  "pedigreeLoop =
     [(''A'', \<lparr>parent1 = Some ''B'', parent2 = Some ''B''\<rparr>),
      (''B'', \<lparr>parent1 = Some ''A'', parent2 = Some ''C''\<rparr>),
      (''C'', \<lparr>parent1 = Some ''A'', parent2 = Some ''B''\<rparr>)]"

lemma loop_full:
  "returnsValue (calculateOffspringInbreedingC codeUnitCompare False pedigreeLoop 3 newCalculator
     (Some ''A'') (Some ''C'')) (1353/512)"
  by (simp add: pedigreeLoop_def cached_ev cong: evcong)

lemma loop_independent:
  "returnsValue (calculateOffspringInbreedingC codeUnitCompare True pedigreeLoop 3 newCalculator
     (Some ''A'') (Some ''C'')) (1371/512)"
  by (simp add: pedigreeLoop_def cached_ev cong: evcong)

subsection \<open>Identifiers that contain the separator of the path key\<close>





subsection \<open>Full siblings\<close>

definition pedigreeSiblings :: pedigree where
  "pedigreeSiblings =
     [(''a'', \<lparr>parent1 = Some ''dam'', parent2 = Some ''sire''\<rparr>),
      (''b'', \<lparr>parent1 = Some ''dam'', parent2 = Some ''sire''\<rparr>),
      (''dam'', \<lparr>parent1 = None, parent2 = None\<rparr>),
      (''sire'', \<lparr>parent1 = None, parent2 = None\<rparr>)]"

lemma closure_siblings:
  "closure pedigreeSiblings ''dam'' = {''dam''}" "closure pedigreeSiblings ''a'' = {''a'', ''dam'', ''sire''}"
  "closure pedigreeSiblings ''sire'' = {''sire''}" "closure pedigreeSiblings ''b'' = {''b'', ''dam'', ''sire''}"
  unfolding getAncestors_closure[symmetric]
  by (auto simp: pedigreeSiblings_def engine_ev cong: evcong)

lemma siblings_facts:
  "getParent1 pedigreeSiblings ''a'' = Some ''dam''" "getParent2 pedigreeSiblings ''a'' = Some ''sire''"
  "getParent1 pedigreeSiblings ''b'' = Some ''dam''" "getParent2 pedigreeSiblings ''b'' = Some ''sire''"
  "founder pedigreeSiblings ''dam''" "founder pedigreeSiblings ''sire''"
  by (simp_all add: pedigreeSiblings_def getParent1_def getParent2_def founder_def)

lemma siblings_acyclic: "acyclic (parentEdges pedigreeSiblings)"
proof (rule acyclicI_order)
  fix a b assume "(a, b) \<in> parentEdges pedigreeSiblings"
  then show "(\<lambda>x. if x = ''a'' \<or> x = ''b'' then 1 else (0::nat)) b
     < (\<lambda>x. if x = ''a'' \<or> x = ''b'' then 1 else (0::nat)) a"
    by (auto simp: parentEdges_def parentsOf_def pedigreeSiblings_def getParent1_def getParent2_def
        split: if_splits)
qed

lemma siblings_plain: "z \<in> closure pedigreeSiblings ''a'' \<union> closure pedigreeSiblings ''b'' \<Longrightarrow> plain z"
  by (auto simp: closure_siblings plain_def)

section \<open>The cached calculators: order of the arguments, pairs without a common ancestor\<close>

lemma orderPair_swap:
  assumes "(0 < cmp a b) \<noteq> (0 < cmp b a)"
  shows "orderPair cmp a b = orderPair cmp b a"
  using assms by (auto simp: orderPair_def)


lemma newCalculator_caches [simp]:
  "inbreedingCache newCalculator = Map.empty" "offspringInbreedingCache newCalculator = Map.empty"
  "pathCache newCalculator = Map.empty"
  by (simp_all add: newCalculator_def)

lemma orderPair_closure:
  "closure g (fst (orderPair cmp a b)) \<inter> closure g (snd (orderPair cmp a b)) = closure g a \<inter> closure g b"
  using orderPair_cases[of cmp a b] by auto


section \<open>The cached calculators on full siblings\<close>





lemma findPaths_cache_inbreeding [simp]:
  "inbreedingCache (snd (findPathsToAncestorWithCache g st s t)) = inbreedingCache st"
  by (simp add: findPathsToAncestorWithCache_def Let_def split: option.splits)






section \<open>The cached calculators on a pair of one individual with itself\<close>

lemma append_sep_prefix:
  assumes "c \<notin> set p'" "p @ c # r = p' @ c # r'"
  shows "p = p' \<or> (\<exists>u. p = p' @ c # u)"
  using assms
proof (induction p' arbitrary: p)
  case Nil
  then show ?case by (cases p) auto
next
  case (Cons y ys)
  then show ?case by (cases p) auto
qed

lemma pathKey_self:
  assumes "CHR ''-'' \<notin> set x" "pathKey s t = pathKey x x"
  shows "s = x \<and> t = x"
proof -
  from assms(2) have eq: "s @ CHR ''-'' # (CHR ''>'' # t) = x @ CHR ''-'' # (CHR ''>'' # x)"
    by (simp add: pathKey_def)
  from append_sep_prefix[OF assms(1) eq] show ?thesis
  proof
    assume "s = x"
    with eq show ?thesis by simp
  next
    assume "\<exists>u. s = x @ CHR ''-'' # u"
    then obtain u where "s = x @ CHR ''-'' # u" by blast
    with eq have "u @ CHR ''-'' # CHR ''>'' # t = CHR ''>'' # x" by simp
    then have "CHR ''-'' \<in> set x" by (cases u) auto
    with assms(1) show ?thesis by simp
  qed
qed

text \<open>
  The invariant: the cached coefficients are not negative, and the path cache holds
  nothing but the one-node path under the key of the pair \<open>(x, x)\<close>.
\<close>

definition selfSound :: "ident \<Rightarrow> real calculator \<Rightarrow> bool" where
  "selfSound x st =
     ((\<forall>a v. inbreedingCache st a = Some v \<longrightarrow> 0 \<le> v)
    \<and> (\<forall>k v. offspringInbreedingCache st k = Some v \<longrightarrow> 0 \<le> v)
    \<and> (\<forall>ps. pathCache st (pathKey x x) = Some ps \<longrightarrow> ps = [[x]]))"

definition valueAtLeast :: "ident \<Rightarrow> real \<Rightarrow> (real \<times> real calculator) option \<Rightarrow> bool" where
  "valueAtLeast x t r = (case r of None \<Rightarrow> True | Some res \<Rightarrow> t \<le> fst res \<and> selfSound x (snd res))"

lemma valueAtLeastI: "t \<le> v \<Longrightarrow> selfSound x st' \<Longrightarrow> valueAtLeast x t (Some (v, st'))"
  by (simp add: valueAtLeast_def)

lemma valueAtLeast_None [simp]: "valueAtLeast x t None"
  by (simp add: valueAtLeast_def)

lemma selfSound_new: "selfSound x newCalculator"
  by (simp add: selfSound_def)

lemma selfSound_guard [simp]: "selfSound x (st\<lparr>currentlyCalculatingF := S\<rparr>) = selfSound x st"
  by (simp add: selfSound_def)

lemma selfSound_inbreeding:
  "selfSound x st \<Longrightarrow> 0 \<le> v \<Longrightarrow> selfSound x (st\<lparr>inbreedingCache := (inbreedingCache st)(a \<mapsto> v)\<rparr>)"
  by (simp add: selfSound_def)

lemma selfSound_offspring:
  "selfSound x st \<Longrightarrow> 0 \<le> v
     \<Longrightarrow> selfSound x (st\<lparr>offspringInbreedingCache := (offspringInbreedingCache st)(k \<mapsto> v)\<rparr>)"
  by (simp add: selfSound_def)

lemma selfSound_lookup:
  assumes "selfSound x st" "CHR ''-'' \<notin> set x"
  shows "selfSound x (snd (findPathsToAncestorWithCache g st s t))"
    and "fst (findPathsToAncestorWithCache g st x x) = [[x]]"
proof -
  show "selfSound x (snd (findPathsToAncestorWithCache g st s t))"
  proof (cases "pathCache st (pathKey s t)")
    case (Some ps)
    with assms(1) show ?thesis by (simp add: findPathsToAncestorWithCache_def)
  next
    case None
    have "findPathsToAncestorDFS g s t = [[x]]" if "pathKey s t = pathKey x x"
      using pathKey_self[OF assms(2) that] by (simp add: findPathsToAncestorDFS_def)
    with None assms(1) show ?thesis
      by (auto simp: findPathsToAncestorWithCache_def Let_def selfSound_def)
  qed
  show "fst (findPathsToAncestorWithCache g st x x) = [[x]]"
    using assms(1)
    by (auto simp: findPathsToAncestorWithCache_def Let_def selfSound_def findPathsToAncestorDFS_def
        split: option.splits)
qed

lemma pairSum_self: "pairSum ind [[x]] [[x]] = 1/2"
  by (simp add: pairSum_def pairTerm_def arePathsIndependent_def midNodes_def)

lemma engine_self:
  "CHR ''-'' \<notin> set x \<Longrightarrow> selfSound x st \<Longrightarrow> valueAtLeast x 0 (calculateInbreedingC cmp ind g fuel st a)"
  "CHR ''-'' \<notin> set x \<Longrightarrow> selfSound x st
     \<Longrightarrow> valueAtLeast x 0 (calculateOffspringInbreedingC cmp ind g fuel st p q)"
  "CHR ''-'' \<notin> set x \<Longrightarrow> selfSound x st \<Longrightarrow> 0 \<le> totalF
     \<Longrightarrow> valueAtLeast x (totalF + (if p1 = x \<and> p2 = x \<and> x \<in> set xs then 1/2 else 0))
           (ancestorLoop cmp ind g fuel p1 p2 xs totalF st)"
proof (induction cmp ind g fuel st a and cmp ind g fuel st p q and cmp ind g fuel p1 p2 xs totalF st
    rule: calculateInbreedingC_calculateOffspringInbreedingC_ancestorLoop.induct)
  case (1 cmp ind g fuel st)
  then show ?case by (simp add: calculateInbreedingC.simps valueAtLeast_def)
next
  case (2 cmp ind g fuel st a)
  note hy = 2(2) and snd = 2(3)
  let ?st1 = "st\<lparr>currentlyCalculatingF := insert a (currentlyCalculatingF st)\<rparr>"
  show ?case
  proof (cases "inbreedingCache st a")
    case (Some v)
    with snd have "0 \<le> v" by (simp add: selfSound_def)
    with Some snd show ?thesis by (simp add: calculateInbreedingC.simps valueAtLeast_def)
  next
    case None
    note miss = None
    show ?thesis
    proof (cases "a \<in> currentlyCalculatingF st")
      case True
      with miss snd show ?thesis by (simp add: calculateInbreedingC.simps valueAtLeast_def)
    next
      case False
      have fin: "valueAtLeast x 0 (Some (f, s2\<lparr>inbreedingCache := (inbreedingCache s2)(a \<mapsto> f),
                     currentlyCalculatingF := currentlyCalculatingF s2 - {a}\<rparr>))"
        if "0 \<le> f" "selfSound x s2" for f s2
        using that by (intro valueAtLeastI) (simp_all add: selfSound_inbreeding)
      show ?thesis
      proof (cases "getParent1 g a")
        case None
        with miss False fin[of 0 ?st1] snd show ?thesis
          by (simp add: calculateInbreedingC.simps Let_def)
      next
        case (Some p1)
        note P1 = Some
        show ?thesis
        proof (cases "getParent2 g a")
          case None
          with miss False P1 fin[of 0 ?st1] snd show ?thesis
            by (simp add: calculateInbreedingC.simps Let_def)
        next
          case (Some p2)
          show ?thesis
          proof (cases fuel)
            case 0
            with miss False P1 Some show ?thesis by (simp add: calculateInbreedingC.simps Let_def)
          next
            case (Suc n)
            have IH: "valueAtLeast x 0 (calculateOffspringInbreedingC cmp ind g n ?st1 (Some p1) (Some p2))"
              using snd by (intro 2(1)[OF miss False refl P1 Some Suc hy]) simp
            show ?thesis
            proof (cases "calculateOffspringInbreedingC cmp ind g n ?st1 (Some p1) (Some p2)")
              case None
              with miss False P1 Some Suc show ?thesis by (simp add: calculateInbreedingC.simps Let_def)
            next
              case (Some r)
              obtain f s2 where r: "r = (f, s2)" by (cases r)
              from IH Some r have "0 \<le> f" "selfSound x s2" by (simp_all add: valueAtLeast_def)
              from fin[OF this] miss False P1 \<open>getParent2 g a = Some p2\<close> Suc Some r show ?thesis
                by (simp add: calculateInbreedingC.simps Let_def)
            qed
          qed
        qed
      qed
    qed
  qed
next
  case (3 cmp ind g fuel st q)
  then show ?case by (simp add: calculateOffspringInbreedingC.simps valueAtLeast_def)
next
  case (4 cmp ind g fuel st a)
  then show ?case by (simp add: calculateOffspringInbreedingC.simps valueAtLeast_def)
next
  case (5 cmp ind g fuel st a b)
  note hy = 5(2) and snd = 5(3)
  let ?p1 = "fst (orderPair cmp a b)" and ?p2 = "snd (orderPair cmp a b)"
  let ?common = "commonAncestorsOf (set_add (ancestorsFor ind g ?p1) ?p1) (set_add (ancestorsFor ind g ?p2) ?p2)"
  have cm: "?common = commonList ind g ?p1 ?p2" by (simp add: commonList_def)
  show ?case
  proof (cases "offspringInbreedingCache st (cacheKey ?p1 ?p2)")
    case (Some v)
    with snd have "0 \<le> v" unfolding selfSound_def by blast
    with snd show ?thesis unfolding calcOffC_hit[OF Some] by (simp add: valueAtLeast_def)
  next
    case None
    show ?thesis
    proof (cases "ind \<and> commonList ind g ?p1 ?p2 = []")
      case True
      show ?thesis unfolding calcOffC_early[OF None True]
        by (intro valueAtLeastI selfSound_offspring snd) simp_all
    next
      case False
      have F': "\<not> (ind \<and> ?common = [])" unfolding cm by (rule False)
      have IH: "valueAtLeast x (0 + (if ?p1 = x \<and> ?p2 = x \<and> x \<in> set ?common then 1/2 else 0))
          (ancestorLoop cmp ind g fuel ?p1 ?p2 ?common 0 st)"
        by (intro 5(1)[OF refl refl None refl F' hy snd]) simp
      show ?thesis
      proof (cases "ancestorLoop cmp ind g fuel ?p1 ?p2 (commonList ind g ?p1 ?p2) 0 st")
        case None
        then show ?thesis unfolding calcOffC_loop[OF \<open>offspringInbreedingCache st (cacheKey ?p1 ?p2) = None\<close> False]
          by simp
      next
        case (Some r)
        obtain t s' where r: "r = (t, s')" by (cases r)
        from IH Some r have "0 \<le> t" "selfSound x s'"
          by (auto simp: valueAtLeast_def cm split: if_splits)
        then have "valueAtLeast x 0 (Some (t, s'\<lparr>offspringInbreedingCache :=
            (offspringInbreedingCache s')(cacheKey ?p1 ?p2 \<mapsto> t)\<rparr>))"
          by (intro valueAtLeastI selfSound_offspring)
        then show ?thesis unfolding calcOffC_loop[OF \<open>offspringInbreedingCache st (cacheKey ?p1 ?p2) = None\<close> False]
          by (simp add: Some r)
      qed
    qed
  qed
next
  case (6 cmp ind g fuel p1 p2 totalF st)
  then show ?case by (simp add: ancestorLoop.simps valueAtLeast_def)
next
  case (7 cmp ind g fuel p1 p2 ancestor rest totalF st)
  note hy = 7(3) and snd = 7(4) and t0 = 7(5)
  have IH1: "valueAtLeast x 0 (calculateInbreedingC cmp ind g fuel st (Some ancestor))"
    by (rule 7(1)[OF hy snd])
  show ?case
  proof (cases "calculateInbreedingC cmp ind g fuel st (Some ancestor)")
    case None
    then show ?thesis by (simp add: ancestorLoop.simps)
  next
    case (Some r)
    obtain f st1 where r: "r = (f, st1)" by (cases r)
    from IH1 Some r have f: "0 \<le> f" and s1: "selfSound x st1" by (simp_all add: valueAtLeast_def)
    let ?r1 = "findPathsToAncestorWithCache g st1 p1 ancestor"
    let ?r2 = "findPathsToAncestorWithCache g (snd ?r1) p2 ancestor"
    let ?t' = "addPathPairsC ind f (fst ?r1) (fst ?r2) totalF"
    have s2: "selfSound x (snd ?r1)" by (rule selfSound_lookup(1)[OF s1 hy])
    have s3: "selfSound x (snd ?r2)" by (rule selfSound_lookup(1)[OF s2 hy])
    have inc: "totalF \<le> ?t'"
      using f pairSum_nonneg[of ind "fst ?r1" "fst ?r2"] by (simp add: addPathPairsC_closed)
    have half: "totalF + 1/2 \<le> ?t'" if "p1 = x" "p2 = x" "ancestor = x"
    proof -
      have "fst ?r1 = [[x]]" "fst ?r2 = [[x]]"
        using selfSound_lookup(2)[OF s1 hy] selfSound_lookup(2)[OF s2[unfolded that] hy] that by simp_all
      then have "?t' = totalF + 1/2 * (1 + f)" by (simp add: addPathPairsC_closed pairSum_self)
      with f show ?thesis by simp
    qed
    have t': "0 \<le> ?t'" using inc t0 by simp
    have IH2: "valueAtLeast x (?t' + (if p1 = x \<and> p2 = x \<and> x \<in> set rest then 1/2 else 0))
        (ancestorLoop cmp ind g fuel p1 p2 rest ?t' (snd ?r2))"
      by (rule 7(2)[OF Some[unfolded r] refl refl refl hy s3 t'])
    have step: "ancestorLoop cmp ind g fuel p1 p2 (ancestor # rest) totalF st
        = ancestorLoop cmp ind g fuel p1 p2 rest ?t' (snd ?r2)"
      by (simp add: ancestorLoop.simps Some r Let_def)
    show ?thesis
    proof (cases "ancestorLoop cmp ind g fuel p1 p2 rest ?t' (snd ?r2)")
      case None
      then show ?thesis unfolding step by simp
    next
      case (Some res)
      from IH2 Some have a: "?t' + (if p1 = x \<and> p2 = x \<and> x \<in> set rest then 1/2 else 0) \<le> fst res"
        and b: "selfSound x (snd res)" by (simp_all add: valueAtLeast_def)
      have "totalF + (if p1 = x \<and> p2 = x \<and> x \<in> set (ancestor # rest) then 1/2 else 0) \<le> fst res"
        using a inc half by (auto split: if_splits)
      with b show ?thesis unfolding step Some by (simp add: valueAtLeast_def)
    qed
  qed
qed

lemma cached_self_pairing:
  assumes "CHR ''-'' \<notin> set x" "length g \<le> fuel"
  shows "\<exists>v. returnsValue (calculateOffspringInbreedingC cmp ind g fuel newCalculator (Some x) (Some x)) v
            \<and> 1/2 \<le> v"
proof -
  have op: "orderPair cmp x x = (x, x)" by (simp add: orderPair_def)
  have miss: "offspringInbreedingCache newCalculator (cacheKey (fst (orderPair cmp x x)) (snd (orderPair cmp x x))) = None"
    by simp
  have xin: "x \<in> set (commonList ind g x x)" by (simp add: set_commonList closure_refl)
  then have ne: "\<not> (ind \<and> commonList ind g (fst (orderPair cmp x x)) (snd (orderPair cmp x x)) = [])"
    by (auto simp: op)
  have "guardMeasure g (currentlyCalculatingF newCalculator) \<le> fuel"
    using guardMeasure_empty[of g] assms(2) by simp
  from engine_total(3)[OF this, of cmp ind x x "commonList ind g x x" 0]
  obtain t st' where l: "ancestorLoop cmp ind g fuel x x (commonList ind g x x) 0 newCalculator = Some (t, st')"
    by (auto simp: keeps_def)
  from engine_self(3)[OF assms(1) selfSound_new, of 0 x x "commonList ind g x x" cmp ind g fuel] l xin
  have "1/2 \<le> t" by (simp add: valueAtLeast_def)
  moreover have "returnsValue (calculateOffspringInbreedingC cmp ind g fuel newCalculator (Some x) (Some x)) t"
    unfolding calcOffC_loop[OF miss ne] by (simp add: op l returnsValue_def)
  ultimately show ?thesis by blast
qed

section \<open>The entry point of the independent-path file\<close>

text \<open>
  One planner and one calculator serve the whole batch: the pedigree is loaded once from
  the cow's record and all bull records, with the policy that keeps a parent once it is
  set, and the caches live across the pairs.  The fuel of each pair is spent inside the
  calculator; \<open>None\<close> means that it ran out.
\<close>

fun sharedLoop ::
  "localeCompare \<Rightarrow> nat \<Rightarrow> jsval \<Rightarrow> pedigreeRecord list \<Rightarrow> pedigree \<Rightarrow> real calculator
     \<Rightarrow> resultTuple list \<Rightarrow> (error + resultTuple list) option" where
  "sharedLoop cmp fuel primaryCowId [] animalMap calc results = Some (Inr results)"
| "sharedLoop cmp fuel primaryCowId (primaryBullRecord # bulls) animalMap calc results =
     (let primaryBullId = jsOr (sId primaryBullRecord) (sid primaryBullRecord) in
      if \<not> truthy primaryBullId then sharedLoop cmp fuel primaryCowId bulls animalMap calc results
      else (case getOrCreateAnimal animalMap primaryCowId of
         Inl e \<Rightarrow> Some (Inl e)
       | Inr (cowAnimal, m1) \<Rightarrow>
          (case getOrCreateAnimal m1 primaryBullId of
             Inl e \<Rightarrow> Some (Inl e)
           | Inr (bullAnimal, m2) \<Rightarrow>
              (case (cowAnimal, bullAnimal) of
                 (Some c, Some b) \<Rightarrow>
                   (case calculateOffspringInbreedingC cmp True m2 fuel calc (Some b) (Some c) of
                      None \<Rightarrow> None
                    | Some (f, calc') \<Rightarrow>
                        sharedLoop cmp fuel primaryCowId bulls m2 calc'
                          (results @ [\<lparr>bullId = b, cowId = c, inbreedingCoefficient = toFixed8 f\<rparr>]))
               | _ \<Rightarrow> sharedLoop cmp fuel primaryCowId bulls m2 calc results))))"

definition calculateBreedingInbreedingShared ::
  "localeCompare \<Rightarrow> nat \<Rightarrow> pedigreeRecord option \<Rightarrow> pedigreeRecord list option
     \<Rightarrow> (error + resultTuple list) option" where
  "calculateBreedingInbreedingShared cmp fuel cowRecord bullRecordsArray =
     (case (cowRecord, bullRecordsArray) of
        (Some cow, Some bulls) \<Rightarrow>
           if truthy (jsOr (sId cow) (sid cow)) \<and> bulls \<noteq> []
           then (case loadPedigreeFromJson False [] (cow # bulls) of
                   Inl e \<Rightarrow> Some (Inl e)
                 | Inr animalMap \<Rightarrow>
                     sharedLoop cmp fuel (jsOr (sId cow) (sid cow)) bulls animalMap newCalculator [])
           else Some (Inr [])
      | _ \<Rightarrow> Some (Inr []))"

lemma shared_doc:
  "calculateBreedingInbreedingShared cmp fuel (Some cowDoc) (Some [bullDoc])
     = Some (Inl (InvalidAnimalId ''undefined''))"
  by (simp add: calculateBreedingInbreedingShared_def cow_ids load_doc)

lemma shared_nullToken:
  "calculateBreedingInbreedingShared cmp fuel (Some cowNullToken) (Some [bullPlain])
     = Some (Inl (InvalidAnimalId ''null''))"
  by (simp add: calculateBreedingInbreedingShared_def cow_ids load_nullToken)

subsection \<open>An identifier that contains the separator of the path key\<close>

text \<open>
  The individual \<open>'b->b'\<close> has dam \<open>'b'\<close> and sire \<open>'c'\<close>, which are half siblings through
  the dam \<open>'b->b->b'\<close>.  The key of the paths from \<open>'b'\<close> to \<open>'b->b->b'\<close> and the key of
  the paths from \<open>'b->b'\<close> to itself are the same string \<open>'b->b->b->b'\<close>.
\<close>

definition cowSelf :: pedigreeRecord where
  "cowSelf = blank\<lparr>sId := JStr ''b->b'', mId := JStr ''b'', fId := JStr ''c'',
     mmId := JStr ''b->b->b'', fmId := JStr ''b->b->b''\<rparr>"

definition pedigreeSelf :: pedigree where
  "pedigreeSelf =
     [(''b->b'', \<lparr>parent1 = Some ''b'', parent2 = Some ''c''\<rparr>),
      (''b'', \<lparr>parent1 = Some ''b->b->b'', parent2 = None\<rparr>),
      (''c'', \<lparr>parent1 = Some ''b->b->b'', parent2 = None\<rparr>),
      (''b->b->b'', \<lparr>parent1 = None, parent2 = None\<rparr>)]"

lemma load_self: "loadPedigreeFromJson ow [] [cowSelf, cowSelf] = Inr pedigreeSelf"
  by (cases ow) (simp_all add: cowSelf_def blank_def pedigreeSelf_def loader_ev js_ev cong: evcong)

lemma self_acyclic: "acyclic (parentEdges pedigreeSelf)"
proof (rule acyclicI_order)
  fix a b assume "(a, b) \<in> parentEdges pedigreeSelf"
  then show "(\<lambda>x. if x = ''b->b->b'' then 0 else if x = ''b->b'' then 2 else (1::nat)) b
     < (\<lambda>x. if x = ''b->b->b'' then 0 else if x = ''b->b'' then 2 else (1::nat)) a"
    by (auto simp: parentEdges_def parentsOf_def pedigreeSelf_def getParent1_def getParent2_def
        split: if_splits)
qed

lemma self_key: "pathKey ''b'' ''b->b->b'' = pathKey ''b->b'' ''b->b''"
  by (simp add: pathKey_def)

lemma self_uncached:
  "calculateOffspringInbreeding pedigreeSelf {} (Some ''b->b'') (Some ''b->b'') = 15/16"
  by (simp add: pedigreeSelf_def engine_ev cong: evcong)

lemma self_cached:
  "returnsValue (calculateOffspringInbreedingC codeUnitCompare True pedigreeSelf 4 newCalculator
     (Some ''b->b'') (Some ''b->b'')) (29/64)"
  by (simp add: pedigreeSelf_def cached_ev cong: evcong)

lemma toFixed8_self: "toFixed8 (29/64) = 29/64"
proof -
  have "(29/64 :: real) * 10 ^ 8 + 1/2 = of_int 45312500 + 1/2" by simp
  then have "\<lfloor>(29/64 :: real) * 10 ^ 8 + 1/2\<rfloor> = 45312500"
    by (simp only: floor_add_int) simp
  then show ?thesis by (simp add: toFixed8_def)
qed

lemma getOrCreate_self:
  "getOrCreateAnimal pedigreeSelf (JStr ''b->b'') = Inr (Some ''b->b'', pedigreeSelf)"
  by (simp add: pedigreeSelf_def getOrCreateAnimal_def js_ev Let_def cong: evcong)

lemma shared_self:
  "calculateBreedingInbreedingShared codeUnitCompare 4 (Some cowSelf) (Some [cowSelf])
     = Some (Inr [\<lparr>bullId = ''b->b'', cowId = ''b->b'', inbreedingCoefficient = 29/64\<rparr>])"
proof -
  have ids: "jsOr (sId cowSelf) (sid cowSelf) = JStr ''b->b''"
    by (simp add: cowSelf_def blank_def jsOr_def truthy_def)
  obtain calc' where c: "calculateOffspringInbreedingC codeUnitCompare True pedigreeSelf 4 newCalculator
     (Some ''b->b'') (Some ''b->b'') = Some (29/64, calc')"
    using self_cached by (auto simp: returnsValue_def split: option.splits)
  show ?thesis
    by (simp add: calculateBreedingInbreedingShared_def ids load_self Let_def getOrCreate_self c
        toFixed8_self truthy_def)
qed

section \<open>A batch whose identifiers contain the separator of the offspring-cache key\<close>

text \<open>
  The cow \<open>'a,b,a'\<close> and the bull \<open>'a,b'\<close> are full siblings, of the founders \<open>'dam'\<close> and
  \<open>'sire'\<close>; the bull \<open>'b,a'\<close> is a founder unrelated to both.  \<open>localeCompare\<close> puts
  \<open>'a,b,a'\<close> before \<open>'b,a'\<close> and \<open>'a,b'\<close> before \<open>'a,b,a'\<close> (as the comparison by code units
  does), so the two pairs of the batch have the same key \<open>'a,b,a,b,a'\<close> in
  \<open>offspringInbreedingCache\<close>, and the second pair of a batch is given the coefficient of
  the first.
\<close>

definition cowKey :: pedigreeRecord where
  "cowKey = blank\<lparr>sId := JStr ''a,b,a'', mId := JStr ''dam'', fId := JStr ''sire''\<rparr>"

definition bullSibling :: pedigreeRecord where
  "bullSibling = blank\<lparr>sId := JStr ''a,b'', mId := JStr ''dam'', fId := JStr ''sire''\<rparr>"

definition bullStranger :: pedigreeRecord where
  "bullStranger = blank\<lparr>sId := JStr ''b,a''\<rparr>"

definition pedigreeStrangerFirst :: pedigree where
  "pedigreeStrangerFirst =
     [(''a,b,a'', \<lparr>parent1 = Some ''dam'', parent2 = Some ''sire''\<rparr>),
      (''dam'', \<lparr>parent1 = None, parent2 = None\<rparr>),
      (''sire'', \<lparr>parent1 = None, parent2 = None\<rparr>),
      (''b,a'', \<lparr>parent1 = None, parent2 = None\<rparr>),
      (''a,b'', \<lparr>parent1 = Some ''dam'', parent2 = Some ''sire''\<rparr>)]"

definition pedigreeSiblingFirst :: pedigree where
  "pedigreeSiblingFirst =
     [(''a,b,a'', \<lparr>parent1 = Some ''dam'', parent2 = Some ''sire''\<rparr>),
      (''dam'', \<lparr>parent1 = None, parent2 = None\<rparr>),
      (''sire'', \<lparr>parent1 = None, parent2 = None\<rparr>),
      (''a,b'', \<lparr>parent1 = Some ''dam'', parent2 = Some ''sire''\<rparr>),
      (''b,a'', \<lparr>parent1 = None, parent2 = None\<rparr>)]"

lemma load_key:
  "loadPedigreeFromJson ow [] [cowKey, bullStranger, bullSibling] = Inr pedigreeStrangerFirst"
  "loadPedigreeFromJson ow [] [cowKey, bullSibling, bullStranger] = Inr pedigreeSiblingFirst"
  by (cases ow; simp add: cowKey_def bullStranger_def bullSibling_def blank_def
      pedigreeStrangerFirst_def pedigreeSiblingFirst_def loader_ev js_ev cong: evcong)+

lemma key_collision: "cacheKey ''a,b,a'' ''b,a'' = cacheKey ''a,b'' ''a,b,a''"
  by (simp add: cacheKey_def)

lemma key_order:
  "orderPair codeUnitCompare ''b,a'' ''a,b,a'' = (''a,b,a'', ''b,a'')"
  "orderPair codeUnitCompare ''a,b'' ''a,b,a'' = (''a,b'', ''a,b,a'')"
  by (simp_all add: orderPair_def)

lemma key_facts:
  "getParent1 pedigreeStrangerFirst ''a,b'' = Some ''dam''"
  "getParent2 pedigreeStrangerFirst ''a,b'' = Some ''sire''"
  "getParent1 pedigreeStrangerFirst ''a,b,a'' = Some ''dam''"
  "getParent2 pedigreeStrangerFirst ''a,b,a'' = Some ''sire''"
  "founder pedigreeStrangerFirst ''dam''" "founder pedigreeStrangerFirst ''sire''"
  "founder pedigreeSiblingFirst ''b,a''"
  "getParent1 pedigreeSiblingFirst ''a,b,a'' = Some ''dam''"
  "getParent2 pedigreeSiblingFirst ''a,b,a'' = Some ''sire''"
  "founder pedigreeSiblingFirst ''dam''" "founder pedigreeSiblingFirst ''sire''"
  by (simp_all add: pedigreeStrangerFirst_def pedigreeSiblingFirst_def getParent1_def getParent2_def
      founder_def)

lemma key_disjoint:
  "closure pedigreeSiblingFirst ''b,a'' \<inter> closure pedigreeSiblingFirst ''a,b,a'' = {}"
  by (simp add: founder_closure[OF key_facts(7)] sib_closure[OF key_facts(8,9,10,11)])

lemma toFixed8_quarter: "toFixed8 (1/4) = 1/4"
proof -
  have "(1/4 :: real) * 10 ^ 8 + 1/2 = of_int 25000000 + 1/2" by simp
  then have "\<lfloor>(1/4 :: real) * 10 ^ 8 + 1/2\<rfloor> = 25000000"
    by (simp only: floor_add_int) simp
  then show ?thesis by (simp add: toFixed8_def)
qed

lemma key_ids:
  "jsOr (sId cowKey) (sid cowKey) = JStr ''a,b,a''"
  "jsOr (sId bullSibling) (sid bullSibling) = JStr ''a,b''"
  "jsOr (sId bullStranger) (sid bullStranger) = JStr ''b,a''"
  by (simp_all add: cowKey_def bullSibling_def bullStranger_def blank_def jsOr_def truthy_def)

lemma getOrCreate_key:
  "getOrCreateAnimal pedigreeStrangerFirst (JStr ''a,b,a'') = Inr (Some ''a,b,a'', pedigreeStrangerFirst)"
  "getOrCreateAnimal pedigreeStrangerFirst (JStr ''a,b'') = Inr (Some ''a,b'', pedigreeStrangerFirst)"
  "getOrCreateAnimal pedigreeStrangerFirst (JStr ''b,a'') = Inr (Some ''b,a'', pedigreeStrangerFirst)"
  "getOrCreateAnimal pedigreeSiblingFirst (JStr ''a,b,a'') = Inr (Some ''a,b,a'', pedigreeSiblingFirst)"
  "getOrCreateAnimal pedigreeSiblingFirst (JStr ''a,b'') = Inr (Some ''a,b'', pedigreeSiblingFirst)"
  "getOrCreateAnimal pedigreeSiblingFirst (JStr ''b,a'') = Inr (Some ''b,a'', pedigreeSiblingFirst)"
  by (simp_all add: pedigreeStrangerFirst_def pedigreeSiblingFirst_def getOrCreateAnimal_def js_ev
      Let_def cong: evcong)

lemma stranger_first_call:
  "\<exists>st1. calculateOffspringInbreedingC codeUnitCompare True pedigreeStrangerFirst 4 newCalculator
            (Some ''b,a'') (Some ''a,b,a'') = Some (0, st1)
         \<and> offspringInbreedingCache st1 (cacheKey ''a,b,a'' ''b,a'') = Some 0"
  by (simp add: pedigreeStrangerFirst_def cached_ev cacheKey_def cong: evcong)

lemma sibling_first_call:
  "\<exists>st1. calculateOffspringInbreedingC codeUnitCompare True pedigreeSiblingFirst 4 newCalculator
            (Some ''a,b'') (Some ''a,b,a'') = Some (1/4, st1)
         \<and> offspringInbreedingCache st1 (cacheKey ''a,b'' ''a,b,a'') = Some (1/4)"
  by (simp add: pedigreeSiblingFirst_def cached_ev cacheKey_def cong: evcong)

lemma shared_stranger_first:
  "calculateBreedingInbreedingShared codeUnitCompare 4 (Some cowKey) (Some [bullStranger, bullSibling])
     = Some (Inr [\<lparr>bullId = ''b,a'', cowId = ''a,b,a'', inbreedingCoefficient = 0\<rparr>,
                  \<lparr>bullId = ''a,b'', cowId = ''a,b,a'', inbreedingCoefficient = 0\<rparr>])"
proof -
  obtain st1 where c1: "calculateOffspringInbreedingC codeUnitCompare True pedigreeStrangerFirst 4
      newCalculator (Some ''b,a'') (Some ''a,b,a'') = Some (0, st1)"
    and h: "offspringInbreedingCache st1 (cacheKey ''a,b,a'' ''b,a'') = Some 0"
    using stranger_first_call by blast
  have "offspringInbreedingCache st1 (cacheKey (fst (orderPair codeUnitCompare ''a,b'' ''a,b,a''))
      (snd (orderPair codeUnitCompare ''a,b'' ''a,b,a''))) = Some 0"
    using h by (simp add: key_order key_collision)
  then have c2: "calculateOffspringInbreedingC codeUnitCompare True pedigreeStrangerFirst 4 st1
      (Some ''a,b'') (Some ''a,b,a'') = Some (0, st1)"
    by (rule calcOffC_hit)
  show ?thesis
    by (simp add: calculateBreedingInbreedingShared_def key_ids load_key getOrCreate_key Let_def
        truthy_def toFixed8_zero c1 c2)
qed

lemma shared_sibling_first:
  "calculateBreedingInbreedingShared codeUnitCompare 4 (Some cowKey) (Some [bullSibling, bullStranger])
     = Some (Inr [\<lparr>bullId = ''a,b'', cowId = ''a,b,a'', inbreedingCoefficient = 1/4\<rparr>,
                  \<lparr>bullId = ''b,a'', cowId = ''a,b,a'', inbreedingCoefficient = 1/4\<rparr>])"
proof -
  obtain st1 where c1: "calculateOffspringInbreedingC codeUnitCompare True pedigreeSiblingFirst 4
      newCalculator (Some ''a,b'') (Some ''a,b,a'') = Some (1/4, st1)"
    and h: "offspringInbreedingCache st1 (cacheKey ''a,b'' ''a,b,a'') = Some (1/4)"
    using sibling_first_call by blast
  have "offspringInbreedingCache st1 (cacheKey (fst (orderPair codeUnitCompare ''b,a'' ''a,b,a''))
      (snd (orderPair codeUnitCompare ''b,a'' ''a,b,a''))) = Some (1/4)"
    using h by (simp add: key_order key_collision)
  then have c2: "calculateOffspringInbreedingC codeUnitCompare True pedigreeSiblingFirst 4 st1
      (Some ''b,a'') (Some ''a,b,a'') = Some (1/4, st1)"
    by (rule calcOffC_hit)
  show ?thesis
    by (simp add: calculateBreedingInbreedingShared_def key_ids load_key getOrCreate_key Let_def
        truthy_def toFixed8_quarter c1 c2)
qed

text \<open>On the same records the strict-pairing file reports the siblings and the stranger right.\<close>

lemma strict_key:
  "calculateBreedingInbreeding (Some cowKey) (Some [bullStranger, bullSibling])
     = Inr [\<lparr>bullId = ''b,a'', cowId = ''a,b,a'', inbreedingCoefficient = 0\<rparr>,
            \<lparr>bullId = ''a,b'', cowId = ''a,b,a'', inbreedingCoefficient = 1/4\<rparr>]"
  by (simp add: calculateBreedingInbreeding_def pairResult_def key_ids truthy_def
      cowKey_def bullStranger_def bullSibling_def blank_def loader_ev js_ev engine_ev
      toFixed8_zero toFixed8_quarter cong: evcong)

section \<open>The arithmetic of the coefficients as a parameter\<close>

text \<open>
  A coefficient is a JavaScript number, a float64.  The calculators use \<open>0.0\<close>, \<open>1.0\<close>,
  \<open>+\<close>, \<open>*\<close> and \<open>Math.pow(0.5, n)\<close>, and every \<open>+\<close> rounds.  In the sections above
  the coefficients are real numbers and these operations are exact.  Here the operations
  are the fields of a record, so that a statement proved for every such record holds of
  float64 as well, and the calculators are written once more with the record as an
  argument.
\<close>

record 'f arith =
  fzero :: 'f
  fone :: 'f
  fadd :: "'f \<Rightarrow> 'f \<Rightarrow> 'f"
  fmul :: "'f \<Rightarrow> 'f \<Rightarrow> 'f"
  fpow :: "nat \<Rightarrow> 'f"

text \<open>Exact arithmetic: the real numbers.\<close>

definition exactArith :: "real arith" where
  "exactArith = \<lparr>fzero = 0, fone = 1, fadd = (+), fmul = (*), fpow = (\<lambda>n. (1/2) ^ n)\<rparr>"

definition contributionWith :: "'f arith \<Rightarrow> 'f \<Rightarrow> ident list \<Rightarrow> ident list \<Rightarrow> 'f" where
  "contributionWith ops fAncestor path1 path2 =
     (let n1 = length path1 - 1; n2 = length path2 - 1; exponent = n1 + n2 + 1
      in fmul ops (fpow ops exponent) (fadd ops (fone ops) fAncestor))"

definition addPairWith :: "'f arith \<Rightarrow> bool \<Rightarrow> 'f \<Rightarrow> ident list \<Rightarrow> 'f \<Rightarrow> ident list \<Rightarrow> 'f" where
  "addPairWith ops ind fAncestor path1 totalF path2 =
     (if ind then
        (if arePathsIndependent path1 path2
         then fadd ops totalF (contributionWith ops fAncestor path1 path2) else totalF)
      else fadd ops totalF (contributionWith ops fAncestor path1 path2))"

definition addPathPairsWith ::
  "'f arith \<Rightarrow> bool \<Rightarrow> 'f \<Rightarrow> ident list list \<Rightarrow> ident list list \<Rightarrow> 'f \<Rightarrow> 'f" where
  "addPathPairsWith ops ind fAncestor paths1 paths2 totalF =
     foldl (\<lambda>t path1. foldl (addPairWith ops ind fAncestor path1) t paths2) totalF paths1"

subsection \<open>The calculator without memoization\<close>

text \<open>
  The calculator of the strict-pairing file and of the no-cache file: every pair of
  paths is added (the flag of \<open>addPathPairsWith\<close> is \<open>False\<close>).
\<close>

function calculateInbreedingWith :: "'f arith \<Rightarrow> pedigree \<Rightarrow> ident set \<Rightarrow> ident option \<Rightarrow> 'f"
  and calculateOffspringInbreedingWith ::
    "'f arith \<Rightarrow> pedigree \<Rightarrow> ident set \<Rightarrow> ident option \<Rightarrow> ident option \<Rightarrow> 'f"
where
  "calculateInbreedingWith ops g guard None = fzero ops"
| "calculateInbreedingWith ops g guard (Some a) =
     (if a \<in> guard then fzero ops
      else (case getParent1 g a of None \<Rightarrow> fzero ops
            | Some p1 \<Rightarrow> (case getParent2 g a of None \<Rightarrow> fzero ops
               | Some p2 \<Rightarrow> calculateOffspringInbreedingWith ops g (insert a guard) (Some p1) (Some p2))))"
| "calculateOffspringInbreedingWith ops g guard None q = fzero ops"
| "calculateOffspringInbreedingWith ops g guard (Some p1) None = fzero ops"
| "calculateOffspringInbreedingWith ops g guard (Some p1) (Some p2) =
     (let ancestors1 = set_add (getAncestors g p1) p1;
          ancestors2 = set_add (getAncestors g p2) p2
      in foldl (\<lambda>totalF ancestor.
              addPathPairsWith ops False (calculateInbreedingWith ops g guard (Some ancestor))
                (findPathsToAncestorDFS g p1 ancestor) (findPathsToAncestorDFS g p2 ancestor) totalF)
           (fzero ops) (commonAncestorsOf ancestors1 ancestors2))"
  by pat_completeness auto

termination calculateInbreedingWith
proof (relation "measure (\<lambda>x. case x of Inl (ops, g, guard, a) \<Rightarrow> 2 * guardMeasure g guard
                                 | Inr (ops, g, guard, p, q) \<Rightarrow> 2 * guardMeasure g guard + 1)", goal_cases)
  case 1
  show ?case by simp
next
  case 2
  then show ?case by (auto dest!: guardMeasure_insert)
next
  case 3
  show ?case by simp
qed

declare calculateInbreedingWith.simps(2) [simp del]
declare calculateOffspringInbreedingWith.simps(3) [simp del]

text \<open>With exact arithmetic this is the real-valued calculator.\<close>

lemma exactArith_simps [simp]:
  "fzero exactArith = 0" "fone exactArith = 1" "fadd exactArith = (+)" "fmul exactArith = (*)"
  "fpow exactArith n = (1/2) ^ n"
  by (simp_all add: exactArith_def)

lemma contributionWith_exact: "contributionWith exactArith f p q = contribution f p q"
  by (simp add: contributionWith_def contribution_def)

lemma addPairWith_exact: "addPairWith exactArith ind f p t q = addPair ind f p t q"
  by (simp add: addPairWith_def addPair_def contributionWith_exact)

lemma addPathPairsWith_exact:
  "addPathPairsWith exactArith ind f ps qs t = addPathPairsC ind f ps qs t"
  by (simp add: addPathPairsWith_def addPathPairsC_def addPairWith_exact[abs_def])

lemma calculateWith_exact:
  "calculateInbreedingWith exactArith g guard a = calculateInbreeding g guard a"
  "calculateOffspringInbreedingWith exactArith g guard p q = calculateOffspringInbreeding g guard p q"
proof (induction g guard a and g guard p q rule: calculateInbreeding_calculateOffspringInbreeding.induct)
  case (1 g guard)
  show ?case by simp
next
  case (2 g guard a)
  then show ?case
    by (simp add: calculateInbreedingWith.simps(2) calculateInbreeding.simps(2) split: option.splits)
next
  case (3 g guard q)
  show ?case by simp
next
  case (4 g guard p1)
  show ?case by simp
next
  case (5 g guard p1 p2)
  let ?common = "commonAncestorsOf (set_add (getAncestors g p1) p1) (set_add (getAncestors g p2) p2)"
  have "foldl (\<lambda>totalF ancestor.
              addPathPairsWith exactArith False (calculateInbreedingWith exactArith g guard (Some ancestor))
                (findPathsToAncestorDFS g p1 ancestor) (findPathsToAncestorDFS g p2 ancestor) totalF) t xs
      = foldl (\<lambda>totalF ancestor.
              addPathPairs (calculateInbreeding g guard (Some ancestor))
                (findPathsToAncestorDFS g p1 ancestor) (findPathsToAncestorDFS g p2 ancestor) totalF) t xs"
    if "set xs \<subseteq> set ?common" for xs t
    using that
  proof (induction xs arbitrary: t)
    case Nil
    show ?case by simp
  next
    case (Cons x xs)
    from Cons.prems have "x \<in> set ?common" by simp
    from 5[OF refl refl this] Cons show ?case
      by (simp add: addPathPairsWith_exact addPathPairsC_False)
  qed
  from this[of ?common 0] show ?case
    by (simp add: calculateOffspringInbreedingWith.simps(3) calculateOffspringInbreeding.simps(3) Let_def)
qed

subsection \<open>The contributions that one call adds up\<close>

definition pairContributions :: "'f arith \<Rightarrow> 'f \<Rightarrow> ident list list \<Rightarrow> ident list list \<Rightarrow> 'f list" where
  "pairContributions ops fAncestor paths1 paths2 =
     concat (map (\<lambda>path1. map (contributionWith ops fAncestor path1) paths2) paths1)"

definition contributionsWith :: "'f arith \<Rightarrow> pedigree \<Rightarrow> ident set \<Rightarrow> ident \<Rightarrow> ident \<Rightarrow> 'f list" where
  "contributionsWith ops g guard p1 p2 =
     concat (map (\<lambda>ancestor.
         pairContributions ops (calculateInbreedingWith ops g guard (Some ancestor))
           (findPathsToAncestorDFS g p1 ancestor) (findPathsToAncestorDFS g p2 ancestor))
       (commonAncestorsOf (set_add (getAncestors g p1) p1) (set_add (getAncestors g p2) p2)))"

lemma addPathPairsWith_contributions:
  "addPathPairsWith ops False f ps qs t = foldl (fadd ops) t (pairContributions ops f ps qs)"
proof -
  have inner: "foldl (addPairWith ops False f p) t' qs = foldl (fadd ops) t' (map (contributionWith ops f p) qs)"
    for t' p
    by (induction qs arbitrary: t') (simp_all add: addPairWith_def)
  show ?thesis
    unfolding addPathPairsWith_def pairContributions_def inner
    by (induction ps arbitrary: t) simp_all
qed

text \<open>
  The coefficient of a pair is the sum, from left to right and starting from \<open>0.0\<close>, of
  the list of its contributions.
\<close>

lemma offspring_foldl_contributions:
  "calculateOffspringInbreedingWith ops g guard (Some p1) (Some p2)
     = foldl (fadd ops) (fzero ops) (contributionsWith ops g guard p1 p2)"
proof -
  have "foldl (\<lambda>totalF ancestor.
              addPathPairsWith ops False (calculateInbreedingWith ops g guard (Some ancestor))
                (findPathsToAncestorDFS g p1 ancestor) (findPathsToAncestorDFS g p2 ancestor) totalF) t xs
      = foldl (fadd ops) t (concat (map (\<lambda>ancestor.
         pairContributions ops (calculateInbreedingWith ops g guard (Some ancestor))
           (findPathsToAncestorDFS g p1 ancestor) (findPathsToAncestorDFS g p2 ancestor)) xs))" for t xs
    by (induction xs arbitrary: t) (simp_all add: addPathPairsWith_contributions)
  then show ?thesis
    by (simp add: calculateOffspringInbreedingWith.simps(3) contributionsWith_def Let_def)
qed

text \<open>
  The two orders of the arguments add up the same contributions, each as often; the
  order in which they are added is the order in which the first argument's ancestors
  and paths are enumerated.
\<close>

lemma contributionWith_commute: "contributionWith ops f p q = contributionWith ops f q p"
  by (simp add: contributionWith_def add.commute)

lemma mset_concat_Cons:
  "mset (concat (map (\<lambda>q. f q # h q) qs)) = mset (map f qs) + mset (concat (map h qs))"
  by (induction qs) simp_all

lemma mset_concat_swap:
  "mset (concat (map (\<lambda>p. map (h p) qs) ps)) = mset (concat (map (\<lambda>q. map (\<lambda>p. h p q) ps) qs))"
proof (induction ps)
  case Nil
  show ?case by simp
next
  case (Cons p ps)
  then show ?case by (simp add: mset_concat_Cons)
qed

lemma mset_pairContributions:
  "mset (pairContributions ops f ps qs) = mset (pairContributions ops f qs ps)"
  unfolding pairContributions_def
  by (subst mset_concat_swap) (simp add: contributionWith_commute[of ops f])

lemma mset_concat_perm:
  assumes "mset xs = mset ys"
  shows "mset (concat (map f xs)) = mset (concat (map f ys))"
proof -
  have "mset (concat (map f zs)) = (\<Sum>z \<in># mset zs. mset (f z))" for zs
    by (induction zs) simp_all
  with assms show ?thesis by simp
qed

lemma mset_commonAncestorsOf:
  "mset (commonAncestorsOf (set_add (getAncestors g p1) p1) (set_add (getAncestors g p2) p2))
     = mset (commonAncestorsOf (set_add (getAncestors g p2) p2) (set_add (getAncestors g p1) p1))"
  by (rule set_eq_iff_mset_eq_distinct[THEN iffD1])
    (auto simp: set_commonAncestorsOf distinct_commonAncestorsOf)

lemma mset_contributions:
  "mset (contributionsWith ops g guard p1 p2) = mset (contributionsWith ops g guard p2 p1)"
proof -
  have "mset (contributionsWith ops g guard p1 p2)
      = mset (concat (map (\<lambda>ancestor.
         pairContributions ops (calculateInbreedingWith ops g guard (Some ancestor))
           (findPathsToAncestorDFS g p1 ancestor) (findPathsToAncestorDFS g p2 ancestor))
       (commonAncestorsOf (set_add (getAncestors g p2) p2) (set_add (getAncestors g p1) p1))))"
    unfolding contributionsWith_def by (rule mset_concat_perm) (rule mset_commonAncestorsOf)
  also have "\<dots> = mset (contributionsWith ops g guard p2 p1)"
  proof -
    have "mset (concat (map f zs)) = mset (concat (map h zs))"
      if "\<And>z. mset (f z) = mset (h z)" for f h :: "ident \<Rightarrow> 'a list" and zs
      using that by (induction zs) simp_all
    then show ?thesis unfolding contributionsWith_def
      by (rule) (rule mset_pairContributions)
  qed
  finally show ?thesis .
qed

section \<open>The arithmetic of float64\<close>

type_synonym float64 = "int \<times> int"

function bitLength :: "int \<Rightarrow> nat" where
  "bitLength n = (if n \<le> 0 then 0 else Suc (bitLength (n div 2)))"
  by pat_completeness auto

termination bitLength
  by (relation "measure nat") auto

function stripZeros :: "int \<Rightarrow> int \<Rightarrow> int \<times> int" where
  "stripZeros m e = (if m \<le> 0 then (0, 0) else if even m then stripZeros (m div 2) (e + 1) else (m, e))"
  by pat_completeness auto

termination stripZeros
  by (relation "measure (\<lambda>(m, e). nat m)") auto

declare bitLength.simps [simp del]
declare stripZeros.simps [simp del]

definition roundHalfEven :: "int \<Rightarrow> nat \<Rightarrow> int" where
  "roundHalfEven n k =
     (let q = n div 2 ^ k; r = n mod 2 ^ k
      in if 2 ^ k < 2 * r \<or> (2 * r = 2 ^ k \<and> odd q) then q + 1 else q)"

definition roundTo53 :: "int \<Rightarrow> int \<Rightarrow> float64" where
  "roundTo53 m e =
     (let k = bitLength \<bar>m\<bar> - 53;
          r = stripZeros (roundHalfEven \<bar>m\<bar> k) (e + int k)
      in (sgn m * fst r, snd r))"

fun fadd64 :: "float64 \<Rightarrow> float64 \<Rightarrow> float64" where
  "fadd64 (m1, e1) (m2, e2) =
     (let e = min e1 e2 in roundTo53 (m1 * 2 ^ nat (e1 - e) + m2 * 2 ^ nat (e2 - e)) e)"

fun fmul64 :: "float64 \<Rightarrow> float64 \<Rightarrow> float64" where
  "fmul64 (m1, e1) (m2, e2) = roundTo53 (m1 * m2) (e1 + e2)"

definition float64Arith :: "float64 arith" where
  "float64Arith = \<lparr>fzero = (0, 0), fone = (1, 0), fadd = fadd64, fmul = fmul64,
     fpow = (\<lambda>n. (1, - int n))\<rparr>"

fun valueOf :: "float64 \<Rightarrow> real" where
  "valueOf (m, e) = (if 0 \<le> e then of_int m * 2 ^ nat e else of_int m / 2 ^ nat (- e))"

definition pedigreeChain :: pedigree where
  "pedigreeChain =
     [(''a'', \<lparr>parent1 = Some ''n'', parent2 = Some ''c01''\<rparr>),
      (''b'', \<lparr>parent1 = Some ''t1'', parent2 = Some ''t2''\<rparr>),
      (''n'', \<lparr>parent1 = None, parent2 = None\<rparr>),
      (''t1'', \<lparr>parent1 = Some ''n'', parent2 = None\<rparr>),
      (''t2'', \<lparr>parent1 = None, parent2 = None\<rparr>),
      (''c01'', \<lparr>parent1 = Some ''c02'', parent2 = None\<rparr>),
      (''c02'', \<lparr>parent1 = Some ''c03'', parent2 = None\<rparr>),
      (''c03'', \<lparr>parent1 = Some ''c04'', parent2 = None\<rparr>),
      (''c04'', \<lparr>parent1 = Some ''c05'', parent2 = None\<rparr>),
      (''c05'', \<lparr>parent1 = Some ''c06'', parent2 = None\<rparr>),
      (''c06'', \<lparr>parent1 = Some ''c07'', parent2 = None\<rparr>),
      (''c07'', \<lparr>parent1 = Some ''c08'', parent2 = None\<rparr>),
      (''c08'', \<lparr>parent1 = Some ''c09'', parent2 = None\<rparr>),
      (''c09'', \<lparr>parent1 = Some ''c10'', parent2 = None\<rparr>),
      (''c10'', \<lparr>parent1 = Some ''c11'', parent2 = None\<rparr>),
      (''c11'', \<lparr>parent1 = Some ''c12'', parent2 = None\<rparr>),
      (''c12'', \<lparr>parent1 = Some ''c13'', parent2 = None\<rparr>),
      (''c13'', \<lparr>parent1 = Some ''c14'', parent2 = None\<rparr>),
      (''c14'', \<lparr>parent1 = Some ''c15'', parent2 = None\<rparr>),
      (''c15'', \<lparr>parent1 = Some ''c16'', parent2 = None\<rparr>),
      (''c16'', \<lparr>parent1 = Some ''c17'', parent2 = None\<rparr>),
      (''c17'', \<lparr>parent1 = Some ''c18'', parent2 = None\<rparr>),
      (''c18'', \<lparr>parent1 = Some ''c19'', parent2 = None\<rparr>),
      (''c19'', \<lparr>parent1 = Some ''c20'', parent2 = None\<rparr>),
      (''c20'', \<lparr>parent1 = Some ''c21'', parent2 = None\<rparr>),
      (''c21'', \<lparr>parent1 = Some ''c22'', parent2 = None\<rparr>),
      (''c22'', \<lparr>parent1 = Some ''c23'', parent2 = None\<rparr>),
      (''c23'', \<lparr>parent1 = Some ''c24'', parent2 = None\<rparr>),
      (''c24'', \<lparr>parent1 = Some ''c25'', parent2 = None\<rparr>),
      (''c25'', \<lparr>parent1 = Some ''c26'', parent2 = None\<rparr>),
      (''c26'', \<lparr>parent1 = Some ''c27'', parent2 = None\<rparr>),
      (''c27'', \<lparr>parent1 = Some ''c28'', parent2 = None\<rparr>),
      (''c28'', \<lparr>parent1 = Some ''c29'', parent2 = None\<rparr>),
      (''c29'', \<lparr>parent1 = Some ''c30'', parent2 = None\<rparr>),
      (''c30'', \<lparr>parent1 = Some ''c31'', parent2 = None\<rparr>),
      (''c31'', \<lparr>parent1 = Some ''c32'', parent2 = None\<rparr>),
      (''c32'', \<lparr>parent1 = Some ''c33'', parent2 = None\<rparr>),
      (''c33'', \<lparr>parent1 = Some ''c34'', parent2 = None\<rparr>),
      (''c34'', \<lparr>parent1 = Some ''c35'', parent2 = None\<rparr>),
      (''c35'', \<lparr>parent1 = Some ''c36'', parent2 = None\<rparr>),
      (''c36'', \<lparr>parent1 = Some ''c37'', parent2 = None\<rparr>),
      (''c37'', \<lparr>parent1 = Some ''c38'', parent2 = None\<rparr>),
      (''c38'', \<lparr>parent1 = Some ''c39'', parent2 = None\<rparr>),
      (''c39'', \<lparr>parent1 = Some ''c40'', parent2 = None\<rparr>),
      (''c40'', \<lparr>parent1 = Some ''c41'', parent2 = None\<rparr>),
      (''c41'', \<lparr>parent1 = Some ''c42'', parent2 = None\<rparr>),
      (''c42'', \<lparr>parent1 = Some ''c43'', parent2 = None\<rparr>),
      (''c43'', \<lparr>parent1 = Some ''c44'', parent2 = None\<rparr>),
      (''c44'', \<lparr>parent1 = Some ''c45'', parent2 = None\<rparr>),
      (''c45'', \<lparr>parent1 = Some ''c46'', parent2 = None\<rparr>),
      (''c46'', \<lparr>parent1 = Some ''c47'', parent2 = None\<rparr>),
      (''c47'', \<lparr>parent1 = Some ''c48'', parent2 = None\<rparr>),
      (''c48'', \<lparr>parent1 = Some ''c49'', parent2 = None\<rparr>),
      (''c49'', \<lparr>parent1 = Some ''c50'', parent2 = None\<rparr>),
      (''c50'', \<lparr>parent1 = Some ''c51'', parent2 = None\<rparr>),
      (''c51'', \<lparr>parent1 = Some ''c52'', parent2 = None\<rparr>),
      (''c52'', \<lparr>parent1 = Some ''c53'', parent2 = None\<rparr>),
      (''c53'', \<lparr>parent1 = Some ''c54'', parent2 = None\<rparr>),
      (''c54'', \<lparr>parent1 = Some ''t1'', parent2 = Some ''t2''\<rparr>)]"

lemma chain_parents:
  "getParent1 pedigreeChain ''a'' = Some ''n''"
  "getParent2 pedigreeChain ''a'' = Some ''c01''"
  "getParent1 pedigreeChain ''b'' = Some ''t1''"
  "getParent2 pedigreeChain ''b'' = Some ''t2''"
  "getParent1 pedigreeChain ''n'' = None"
  "getParent2 pedigreeChain ''n'' = None"
  "getParent1 pedigreeChain ''t1'' = Some ''n''"
  "getParent2 pedigreeChain ''t1'' = None"
  "getParent1 pedigreeChain ''t2'' = None"
  "getParent2 pedigreeChain ''t2'' = None"
  "getParent1 pedigreeChain ''c01'' = Some ''c02''"
  "getParent2 pedigreeChain ''c01'' = None"
  "getParent1 pedigreeChain ''c02'' = Some ''c03''"
  "getParent2 pedigreeChain ''c02'' = None"
  "getParent1 pedigreeChain ''c03'' = Some ''c04''"
  "getParent2 pedigreeChain ''c03'' = None"
  "getParent1 pedigreeChain ''c04'' = Some ''c05''"
  "getParent2 pedigreeChain ''c04'' = None"
  "getParent1 pedigreeChain ''c05'' = Some ''c06''"
  "getParent2 pedigreeChain ''c05'' = None"
  "getParent1 pedigreeChain ''c06'' = Some ''c07''"
  "getParent2 pedigreeChain ''c06'' = None"
  "getParent1 pedigreeChain ''c07'' = Some ''c08''"
  "getParent2 pedigreeChain ''c07'' = None"
  "getParent1 pedigreeChain ''c08'' = Some ''c09''"
  "getParent2 pedigreeChain ''c08'' = None"
  "getParent1 pedigreeChain ''c09'' = Some ''c10''"
  "getParent2 pedigreeChain ''c09'' = None"
  "getParent1 pedigreeChain ''c10'' = Some ''c11''"
  "getParent2 pedigreeChain ''c10'' = None"
  "getParent1 pedigreeChain ''c11'' = Some ''c12''"
  "getParent2 pedigreeChain ''c11'' = None"
  "getParent1 pedigreeChain ''c12'' = Some ''c13''"
  "getParent2 pedigreeChain ''c12'' = None"
  "getParent1 pedigreeChain ''c13'' = Some ''c14''"
  "getParent2 pedigreeChain ''c13'' = None"
  "getParent1 pedigreeChain ''c14'' = Some ''c15''"
  "getParent2 pedigreeChain ''c14'' = None"
  "getParent1 pedigreeChain ''c15'' = Some ''c16''"
  "getParent2 pedigreeChain ''c15'' = None"
  "getParent1 pedigreeChain ''c16'' = Some ''c17''"
  "getParent2 pedigreeChain ''c16'' = None"
  "getParent1 pedigreeChain ''c17'' = Some ''c18''"
  "getParent2 pedigreeChain ''c17'' = None"
  "getParent1 pedigreeChain ''c18'' = Some ''c19''"
  "getParent2 pedigreeChain ''c18'' = None"
  "getParent1 pedigreeChain ''c19'' = Some ''c20''"
  "getParent2 pedigreeChain ''c19'' = None"
  "getParent1 pedigreeChain ''c20'' = Some ''c21''"
  "getParent2 pedigreeChain ''c20'' = None"
  "getParent1 pedigreeChain ''c21'' = Some ''c22''"
  "getParent2 pedigreeChain ''c21'' = None"
  "getParent1 pedigreeChain ''c22'' = Some ''c23''"
  "getParent2 pedigreeChain ''c22'' = None"
  "getParent1 pedigreeChain ''c23'' = Some ''c24''"
  "getParent2 pedigreeChain ''c23'' = None"
  "getParent1 pedigreeChain ''c24'' = Some ''c25''"
  "getParent2 pedigreeChain ''c24'' = None"
  "getParent1 pedigreeChain ''c25'' = Some ''c26''"
  "getParent2 pedigreeChain ''c25'' = None"
  "getParent1 pedigreeChain ''c26'' = Some ''c27''"
  "getParent2 pedigreeChain ''c26'' = None"
  "getParent1 pedigreeChain ''c27'' = Some ''c28''"
  "getParent2 pedigreeChain ''c27'' = None"
  "getParent1 pedigreeChain ''c28'' = Some ''c29''"
  "getParent2 pedigreeChain ''c28'' = None"
  "getParent1 pedigreeChain ''c29'' = Some ''c30''"
  "getParent2 pedigreeChain ''c29'' = None"
  "getParent1 pedigreeChain ''c30'' = Some ''c31''"
  "getParent2 pedigreeChain ''c30'' = None"
  "getParent1 pedigreeChain ''c31'' = Some ''c32''"
  "getParent2 pedigreeChain ''c31'' = None"
  "getParent1 pedigreeChain ''c32'' = Some ''c33''"
  "getParent2 pedigreeChain ''c32'' = None"
  "getParent1 pedigreeChain ''c33'' = Some ''c34''"
  "getParent2 pedigreeChain ''c33'' = None"
  "getParent1 pedigreeChain ''c34'' = Some ''c35''"
  "getParent2 pedigreeChain ''c34'' = None"
  "getParent1 pedigreeChain ''c35'' = Some ''c36''"
  "getParent2 pedigreeChain ''c35'' = None"
  "getParent1 pedigreeChain ''c36'' = Some ''c37''"
  "getParent2 pedigreeChain ''c36'' = None"
  "getParent1 pedigreeChain ''c37'' = Some ''c38''"
  "getParent2 pedigreeChain ''c37'' = None"
  "getParent1 pedigreeChain ''c38'' = Some ''c39''"
  "getParent2 pedigreeChain ''c38'' = None"
  "getParent1 pedigreeChain ''c39'' = Some ''c40''"
  "getParent2 pedigreeChain ''c39'' = None"
  "getParent1 pedigreeChain ''c40'' = Some ''c41''"
  "getParent2 pedigreeChain ''c40'' = None"
  "getParent1 pedigreeChain ''c41'' = Some ''c42''"
  "getParent2 pedigreeChain ''c41'' = None"
  "getParent1 pedigreeChain ''c42'' = Some ''c43''"
  "getParent2 pedigreeChain ''c42'' = None"
  "getParent1 pedigreeChain ''c43'' = Some ''c44''"
  "getParent2 pedigreeChain ''c43'' = None"
  "getParent1 pedigreeChain ''c44'' = Some ''c45''"
  "getParent2 pedigreeChain ''c44'' = None"
  "getParent1 pedigreeChain ''c45'' = Some ''c46''"
  "getParent2 pedigreeChain ''c45'' = None"
  "getParent1 pedigreeChain ''c46'' = Some ''c47''"
  "getParent2 pedigreeChain ''c46'' = None"
  "getParent1 pedigreeChain ''c47'' = Some ''c48''"
  "getParent2 pedigreeChain ''c47'' = None"
  "getParent1 pedigreeChain ''c48'' = Some ''c49''"
  "getParent2 pedigreeChain ''c48'' = None"
  "getParent1 pedigreeChain ''c49'' = Some ''c50''"
  "getParent2 pedigreeChain ''c49'' = None"
  "getParent1 pedigreeChain ''c50'' = Some ''c51''"
  "getParent2 pedigreeChain ''c50'' = None"
  "getParent1 pedigreeChain ''c51'' = Some ''c52''"
  "getParent2 pedigreeChain ''c51'' = None"
  "getParent1 pedigreeChain ''c52'' = Some ''c53''"
  "getParent2 pedigreeChain ''c52'' = None"
  "getParent1 pedigreeChain ''c53'' = Some ''c54''"
  "getParent2 pedigreeChain ''c53'' = None"
  "getParent1 pedigreeChain ''c54'' = Some ''t1''"
  "getParent2 pedigreeChain ''c54'' = Some ''t2''"
  by (simp_all add: pedigreeChain_def getParent1_def getParent2_def)

lemmas walk_ev = findPathsToAncestorDFS_def dfsLoop.simps(2) processParentForDFS_def getAncestors_def
  getAncestorsV1_def bfsLoop.simps(2) initQueue_def enqueue_def set_add_def commonAncestorsOf_def Let_def

lemma chain_ancestors_a:
  "getAncestors pedigreeChain ''a'' = [''n'', ''c01'', ''c02'', ''c03'', ''c04'', ''c05'', ''c06'', ''c07'', ''c08'', ''c09'', ''c10'', ''c11'', ''c12'', ''c13'', ''c14'', ''c15'', ''c16'', ''c17'', ''c18'', ''c19'', ''c20'', ''c21'', ''c22'', ''c23'', ''c24'', ''c25'', ''c26'', ''c27'', ''c28'', ''c29'', ''c30'', ''c31'', ''c32'', ''c33'', ''c34'', ''c35'', ''c36'', ''c37'', ''c38'', ''c39'', ''c40'', ''c41'', ''c42'', ''c43'', ''c44'', ''c45'', ''c46'', ''c47'', ''c48'', ''c49'', ''c50'', ''c51'', ''c52'', ''c53'', ''c54'', ''t1'', ''t2'']"
  by (simp add: walk_ev chain_parents cong: evcong)

lemma chain_ancestors_b:
  "getAncestors pedigreeChain ''b'' = [''t1'', ''t2'', ''n'']"
  by (simp add: walk_ev chain_parents cong: evcong)

lemma chain_paths_a:
  "findPathsToAncestorDFS pedigreeChain ''a'' ''n'' =
     [[''a'', ''n''],
      [''a'', ''c01'', ''c02'', ''c03'', ''c04'', ''c05'', ''c06'', ''c07'', ''c08'', ''c09'', ''c10'', ''c11'', ''c12'', ''c13'', ''c14'', ''c15'', ''c16'', ''c17'', ''c18'', ''c19'', ''c20'', ''c21'', ''c22'', ''c23'', ''c24'', ''c25'', ''c26'', ''c27'', ''c28'', ''c29'', ''c30'', ''c31'', ''c32'', ''c33'', ''c34'', ''c35'', ''c36'', ''c37'', ''c38'', ''c39'', ''c40'', ''c41'', ''c42'', ''c43'', ''c44'', ''c45'', ''c46'', ''c47'', ''c48'', ''c49'', ''c50'', ''c51'', ''c52'', ''c53'', ''c54'', ''t1'', ''n'']]"
  "findPathsToAncestorDFS pedigreeChain ''a'' ''t1'' =
     [[''a'', ''c01'', ''c02'', ''c03'', ''c04'', ''c05'', ''c06'', ''c07'', ''c08'', ''c09'', ''c10'', ''c11'', ''c12'', ''c13'', ''c14'', ''c15'', ''c16'', ''c17'', ''c18'', ''c19'', ''c20'', ''c21'', ''c22'', ''c23'', ''c24'', ''c25'', ''c26'', ''c27'', ''c28'', ''c29'', ''c30'', ''c31'', ''c32'', ''c33'', ''c34'', ''c35'', ''c36'', ''c37'', ''c38'', ''c39'', ''c40'', ''c41'', ''c42'', ''c43'', ''c44'', ''c45'', ''c46'', ''c47'', ''c48'', ''c49'', ''c50'', ''c51'', ''c52'', ''c53'', ''c54'', ''t1'']]"
  "findPathsToAncestorDFS pedigreeChain ''a'' ''t2'' =
     [[''a'', ''c01'', ''c02'', ''c03'', ''c04'', ''c05'', ''c06'', ''c07'', ''c08'', ''c09'', ''c10'', ''c11'', ''c12'', ''c13'', ''c14'', ''c15'', ''c16'', ''c17'', ''c18'', ''c19'', ''c20'', ''c21'', ''c22'', ''c23'', ''c24'', ''c25'', ''c26'', ''c27'', ''c28'', ''c29'', ''c30'', ''c31'', ''c32'', ''c33'', ''c34'', ''c35'', ''c36'', ''c37'', ''c38'', ''c39'', ''c40'', ''c41'', ''c42'', ''c43'', ''c44'', ''c45'', ''c46'', ''c47'', ''c48'', ''c49'', ''c50'', ''c51'', ''c52'', ''c53'', ''c54'', ''t2'']]"
  by (simp_all add: walk_ev chain_parents cong: evcong)

lemma chain_paths_b:
  "findPathsToAncestorDFS pedigreeChain ''b'' ''n'' = [[''b'', ''t1'', ''n'']]"
  "findPathsToAncestorDFS pedigreeChain ''b'' ''t1'' = [[''b'', ''t1'']]"
  "findPathsToAncestorDFS pedigreeChain ''b'' ''t2'' = [[''b'', ''t2'']]"
  by (simp_all add: walk_ev chain_parents cong: evcong)

lemma chain_common:
  "commonAncestorsOf (set_add (getAncestors pedigreeChain ''a'') ''a'')
     (set_add (getAncestors pedigreeChain ''b'') ''b'') = [''n'', ''t1'', ''t2'']"
  "commonAncestorsOf (set_add (getAncestors pedigreeChain ''b'') ''b'')
     (set_add (getAncestors pedigreeChain ''a'') ''a'') = [''t1'', ''t2'', ''n'']"
  by (simp_all add: chain_ancestors_a chain_ancestors_b commonAncestorsOf_def set_add_def cong: evcong)

lemma chain_founders:
  "calculateInbreedingWith ops pedigreeChain {} (Some ''n'') = fzero ops"
  "calculateInbreedingWith ops pedigreeChain {} (Some ''t1'') = fzero ops"
  "calculateInbreedingWith ops pedigreeChain {} (Some ''t2'') = fzero ops"
  by (simp_all add: calculateInbreedingWith.simps(2) chain_parents)

lemmas float64_ev = float64Arith_def roundTo53_def roundHalfEven_def bitLength.simps stripZeros.simps

lemma chain_contributions:
  "contributionsWith float64Arith pedigreeChain {} ''a'' ''b'' = [(1, -4), (1, -59), (1, -57), (1, -57)]"
  "contributionsWith float64Arith pedigreeChain {} ''b'' ''a'' = [(1, -57), (1, -57), (1, -4), (1, -59)]"
  by (simp_all add: contributionsWith_def pairContributions_def contributionWith_def chain_common
      chain_paths_a chain_paths_b chain_founders float64_ev cong: evcong)

lemma chain_float:
  "calculateOffspringInbreedingWith float64Arith pedigreeChain {} (Some ''a'') (Some ''b'') = (1, -4)"
  "calculateOffspringInbreedingWith float64Arith pedigreeChain {} (Some ''b'') (Some ''a'')
     = (4503599627370497, -56)"
  unfolding offspring_foldl_contributions chain_contributions
  by (simp_all add: float64_ev cong: evcong)

lemma chain_exact:
  "calculateOffspringInbreeding pedigreeChain {} (Some ''a'') (Some ''b'') = 1/16 + 9 / 2 ^ 59"
  unfolding calculateWith_exact(2)[symmetric] offspring_foldl_contributions
  by (simp add: contributionsWith_def pairContributions_def contributionWith_def chain_common
      chain_paths_a chain_paths_b chain_founders cong: evcong)

lemma chain_values:
  "valueOf (1, -4) = 1/16" "valueOf (4503599627370497, -56) = 1/16 + 1 / 2 ^ 56"
  by simp_all

section \<open>The calculators with memoization, arithmetic as a parameter\<close>

text \<open>
  The calculators of the cached file and of the independent-path file once more, with
  the arithmetic as an argument; the flag \<open>ind\<close>, the parameter \<open>localeCompare\<close> and the
  fuel are as before.
\<close>

function calculateInbreedingCWith ::
    "'f arith \<Rightarrow> localeCompare \<Rightarrow> bool \<Rightarrow> pedigree \<Rightarrow> nat \<Rightarrow> 'f calculator \<Rightarrow> ident option \<Rightarrow> ('f \<times> 'f calculator) option"
  and calculateOffspringInbreedingCWith ::
    "'f arith \<Rightarrow> localeCompare \<Rightarrow> bool \<Rightarrow> pedigree \<Rightarrow> nat \<Rightarrow> 'f calculator \<Rightarrow> ident option \<Rightarrow> ident option
       \<Rightarrow> ('f \<times> 'f calculator) option"
  and ancestorLoopWith ::
    "'f arith \<Rightarrow> localeCompare \<Rightarrow> bool \<Rightarrow> pedigree \<Rightarrow> nat \<Rightarrow> ident \<Rightarrow> ident \<Rightarrow> ident list \<Rightarrow> 'f \<Rightarrow> 'f calculator
       \<Rightarrow> ('f \<times> 'f calculator) option"
where
  "calculateInbreedingCWith ops cmp ind g fuel st None = Some (fzero ops, st)"
| "calculateInbreedingCWith ops cmp ind g fuel st (Some a) =
     (case inbreedingCache st a of
        Some v \<Rightarrow> Some (v, st)
      | None \<Rightarrow>
         if a \<in> currentlyCalculatingF st then Some (fzero ops, st)
         else (let st1 = st\<lparr>currentlyCalculatingF := insert a (currentlyCalculatingF st)\<rparr> in
           (case getParent1 g a of
              None \<Rightarrow> Some (fzero ops, st1\<lparr>inbreedingCache := (inbreedingCache st1)(a \<mapsto> fzero ops),
                                   currentlyCalculatingF := currentlyCalculatingF st1 - {a}\<rparr>)
            | Some p1 \<Rightarrow>
               (case getParent2 g a of
                  None \<Rightarrow> Some (fzero ops, st1\<lparr>inbreedingCache := (inbreedingCache st1)(a \<mapsto> fzero ops),
                                       currentlyCalculatingF := currentlyCalculatingF st1 - {a}\<rparr>)
                | Some p2 \<Rightarrow>
                   (case fuel of
                      0 \<Rightarrow> None
                    | Suc n \<Rightarrow>
                       (case calculateOffspringInbreedingCWith ops cmp ind g n st1 (Some p1) (Some p2) of
                          None \<Rightarrow> None
                        | Some (f, st2) \<Rightarrow>
                           Some (f, st2\<lparr>inbreedingCache := (inbreedingCache st2)(a \<mapsto> f),
                                     currentlyCalculatingF := currentlyCalculatingF st2 - {a}\<rparr>)))))))"
| "calculateOffspringInbreedingCWith ops cmp ind g fuel st None q = Some (fzero ops, st)"
| "calculateOffspringInbreedingCWith ops cmp ind g fuel st (Some a) None = Some (fzero ops, st)"
| "calculateOffspringInbreedingCWith ops cmp ind g fuel st (Some a) (Some b) =
     (let p1 = fst (orderPair cmp a b); p2 = snd (orderPair cmp a b) in
      (case offspringInbreedingCache st (cacheKey p1 p2) of
         Some v \<Rightarrow> Some (v, st)
       | None \<Rightarrow>
          (let commonAncestors = commonAncestorsOf (set_add (ancestorsFor ind g p1) p1)
                                   (set_add (ancestorsFor ind g p2) p2)
           in if ind \<and> commonAncestors = []
              then Some (fzero ops, st\<lparr>offspringInbreedingCache := (offspringInbreedingCache st)(cacheKey p1 p2 \<mapsto> fzero ops)\<rparr>)
              else (case ancestorLoopWith ops cmp ind g fuel p1 p2 commonAncestors (fzero ops) st of
                      None \<Rightarrow> None
                    | Some (totalF, st') \<Rightarrow>
                       Some (totalF, st'\<lparr>offspringInbreedingCache :=
                                            (offspringInbreedingCache st')(cacheKey p1 p2 \<mapsto> totalF)\<rparr>)))))"
| "ancestorLoopWith ops cmp ind g fuel p1 p2 [] totalF st = Some (totalF, st)"
| "ancestorLoopWith ops cmp ind g fuel p1 p2 (ancestor # rest) totalF st =
     (case calculateInbreedingCWith ops cmp ind g fuel st (Some ancestor) of
        None \<Rightarrow> None
      | Some (fAncestor, st1) \<Rightarrow>
         (let r1 = findPathsToAncestorWithCache g st1 p1 ancestor;
              r2 = findPathsToAncestorWithCache g (snd r1) p2 ancestor
          in ancestorLoopWith ops cmp ind g fuel p1 p2 rest
               (addPathPairsWith ops ind fAncestor (fst r1) (fst r2) totalF) (snd r2)))"
  by pat_completeness auto

termination calculateInbreedingCWith
  by (relation "measures [\<lambda>x. case x of
          Inl (ops, cmp, ind, g, fuel, st, a) \<Rightarrow> 3 * fuel
        | Inr (Inl (ops, cmp, ind, g, fuel, st, p, q)) \<Rightarrow> 3 * fuel + 2
        | Inr (Inr (ops, cmp, ind, g, fuel, p1, p2, xs, t, st)) \<Rightarrow> 3 * fuel + 1,
       \<lambda>x. case x of
          Inl _ \<Rightarrow> 0
        | Inr (Inl _) \<Rightarrow> 0
        | Inr (Inr (ops, cmp, ind, g, fuel, p1, p2, xs, t, st)) \<Rightarrow> length xs]") auto

declare calculateInbreedingCWith.simps [simp del]
declare calculateOffspringInbreedingCWith.simps [simp del]
declare ancestorLoopWith.simps [simp del]

text \<open>With exact arithmetic these are the real-valued calculators.\<close>

lemma calculateCWith_exact:
  "calculateInbreedingCWith exactArith cmp ind g fuel st a = calculateInbreedingC cmp ind g fuel st a"
  "calculateOffspringInbreedingCWith exactArith cmp ind g fuel st p q
     = calculateOffspringInbreedingC cmp ind g fuel st p q"
  "ancestorLoopWith exactArith cmp ind g fuel p1 p2 xs totalF st = ancestorLoop cmp ind g fuel p1 p2 xs totalF st"
proof (induction cmp ind g fuel st a and cmp ind g fuel st p q and cmp ind g fuel p1 p2 xs totalF st
    rule: calculateInbreedingC_calculateOffspringInbreedingC_ancestorLoop.induct)
  case (1 cmp ind g fuel st)
  show ?case by (simp add: calculateInbreedingCWith.simps calculateInbreedingC.simps)
next
  case (2 cmp ind g fuel st a)
  then show ?case
    by (simp add: calculateInbreedingCWith.simps calculateInbreedingC.simps Let_def
        split: option.splits nat.splits)
next
  case (3 cmp ind g fuel st q)
  show ?case by (simp add: calculateOffspringInbreedingCWith.simps calculateOffspringInbreedingC.simps)
next
  case (4 cmp ind g fuel st a)
  show ?case by (simp add: calculateOffspringInbreedingCWith.simps calculateOffspringInbreedingC.simps)
next
  case (5 cmp ind g fuel st a b)
  let ?p1 = "fst (orderPair cmp a b)" and ?p2 = "snd (orderPair cmp a b)"
  let ?common = "commonAncestorsOf (set_add (ancestorsFor ind g ?p1) ?p1) (set_add (ancestorsFor ind g ?p2) ?p2)"
  show ?case
  proof (cases "offspringInbreedingCache st (cacheKey ?p1 ?p2)")
    case (Some v)
    then show ?thesis
      by (simp add: calculateOffspringInbreedingCWith.simps calculateOffspringInbreedingC.simps Let_def)
  next
    case None
    show ?thesis
    proof (cases "ind \<and> ?common = []")
      case True
      show ?thesis
        unfolding calculateOffspringInbreedingCWith.simps calculateOffspringInbreedingC.simps Let_def
        by (simp only: None option.case if_P[OF True] exactArith_simps)
    next
      case False
      from 5[OF refl refl None refl False]
      have "ancestorLoopWith exactArith cmp ind g fuel ?p1 ?p2 ?common 0 st
          = ancestorLoop cmp ind g fuel ?p1 ?p2 ?common 0 st" .
      then show ?thesis
        unfolding calculateOffspringInbreedingCWith.simps calculateOffspringInbreedingC.simps Let_def
        by (simp only: None option.case if_not_P[OF False] exactArith_simps)
    qed
  qed
next
  case (6 cmp ind g fuel p1 p2 totalF st)
  show ?case by (simp add: ancestorLoopWith.simps ancestorLoop.simps)
next
  case (7 cmp ind g fuel p1 p2 ancestor rest totalF st)
  then show ?case
    by (simp add: ancestorLoopWith.simps ancestorLoop.simps Let_def addPathPairsWith_exact
        split: option.splits prod.splits)
qed

subsection \<open>The calculators return\<close>

definition keepsWith :: "'f calculator \<Rightarrow> ('f \<times> 'f calculator) option \<Rightarrow> bool" where
  "keepsWith st r = (\<exists>v st'. r = Some (v, st') \<and> currentlyCalculatingF st' = currentlyCalculatingF st)"

lemma engine_totalWith:
  "guardMeasure g (currentlyCalculatingF st) \<le> fuel \<Longrightarrow> keepsWith st (calculateInbreedingCWith ops cmp ind g fuel st a)"
  "guardMeasure g (currentlyCalculatingF st) \<le> fuel
     \<Longrightarrow> keepsWith st (calculateOffspringInbreedingCWith ops cmp ind g fuel st p q)"
  "guardMeasure g (currentlyCalculatingF st) \<le> fuel
     \<Longrightarrow> keepsWith st (ancestorLoopWith ops cmp ind g fuel p1 p2 xs totalF st)"
proof (induction ops cmp ind g fuel st a and ops cmp ind g fuel st p q and ops cmp ind g fuel p1 p2 xs totalF st
    rule: calculateInbreedingCWith_calculateOffspringInbreedingCWith_ancestorLoopWith.induct)
  case (1 ops cmp ind g fuel st)
  show ?case by (simp add: calculateInbreedingCWith.simps keepsWith_def)
next
  case (2 ops cmp ind g fuel st a)
  let ?st1 = "st\<lparr>currentlyCalculatingF := insert a (currentlyCalculatingF st)\<rparr>"
  show ?case
  proof (cases "inbreedingCache st a")
    case (Some v)
    then show ?thesis by (simp add: calculateInbreedingCWith.simps keepsWith_def)
  next
    case None
    note miss = None
    show ?thesis
    proof (cases "a \<in> currentlyCalculatingF st")
      case True
      with miss show ?thesis by (simp add: calculateInbreedingCWith.simps keepsWith_def)
    next
      case False
      show ?thesis
      proof (cases "getParent1 g a")
        case None
        with miss False show ?thesis by (simp add: calculateInbreedingCWith.simps keepsWith_def Let_def)
      next
        case (Some p1)
        note P1 = Some
        show ?thesis
        proof (cases "getParent2 g a")
          case None
          with miss False P1 show ?thesis by (simp add: calculateInbreedingCWith.simps keepsWith_def Let_def)
        next
          case (Some p2)
          have lt: "guardMeasure g (insert a (currentlyCalculatingF st)) < guardMeasure g (currentlyCalculatingF st)"
            using P1 False by (rule guardMeasure_insert)
          with 2(2) obtain n where n: "fuel = Suc n" "guardMeasure g (currentlyCalculatingF ?st1) \<le> n"
            by (cases fuel) auto
          from 2(1)[OF miss False refl P1 Some n(1) n(2)]
          obtain f st2 where r: "calculateOffspringInbreedingCWith ops cmp ind g n ?st1 (Some p1) (Some p2) = Some (f, st2)"
            and c: "currentlyCalculatingF st2 = insert a (currentlyCalculatingF st)"
            by (auto simp: keepsWith_def)
          from miss False P1 Some n(1) r c show ?thesis
            by (simp add: calculateInbreedingCWith.simps keepsWith_def Let_def)
        qed
      qed
    qed
  qed
next
  case (3 ops cmp ind g fuel st q)
  show ?case by (simp add: calculateOffspringInbreedingCWith.simps keepsWith_def)
next
  case (4 ops cmp ind g fuel st a)
  show ?case by (simp add: calculateOffspringInbreedingCWith.simps keepsWith_def)
next
  case (5 ops cmp ind g fuel st a b)
  let ?p1 = "fst (orderPair cmp a b)" and ?p2 = "snd (orderPair cmp a b)"
  let ?common = "commonAncestorsOf (set_add (ancestorsFor ind g ?p1) ?p1) (set_add (ancestorsFor ind g ?p2) ?p2)"
  show ?case
  proof (cases "offspringInbreedingCache st (cacheKey ?p1 ?p2)")
    case (Some v)
    then show ?thesis by (simp add: calculateOffspringInbreedingCWith.simps keepsWith_def Let_def)
  next
    case None
    show ?thesis
    proof (cases "ind \<and> ?common = []")
      case True
      with None show ?thesis
        by (cases ind) (simp_all add: calculateOffspringInbreedingCWith.simps keepsWith_def Let_def)
    next
      case False
      from 5(1)[OF refl refl None refl False 5(2)]
      obtain t st' where "ancestorLoopWith ops cmp ind g fuel ?p1 ?p2 ?common (fzero ops) st = Some (t, st')"
        "currentlyCalculatingF st' = currentlyCalculatingF st" by (auto simp: keepsWith_def)
      with None False show ?thesis
        by (simp add: calculateOffspringInbreedingCWith.simps keepsWith_def Let_def)
    qed
  qed
next
  case (6 ops cmp ind g fuel p1 p2 totalF st)
  show ?case by (simp add: ancestorLoopWith.simps keepsWith_def)
next
  case (7 ops cmp ind g fuel p1 p2 ancestor rest totalF st)
  from 7(1)[OF 7(3)] obtain f st1 where r: "calculateInbreedingCWith ops cmp ind g fuel st (Some ancestor) = Some (f, st1)"
    and c: "currentlyCalculatingF st1 = currentlyCalculatingF st" by (auto simp: keepsWith_def)
  let ?r1 = "findPathsToAncestorWithCache g st1 p1 ancestor"
  let ?r2 = "findPathsToAncestorWithCache g (snd ?r1) p2 ancestor"
  have "guardMeasure g (currentlyCalculatingF (snd ?r2)) \<le> fuel" using 7(3) c by simp
  from 7(2)[OF r refl refl refl this]
  have "keepsWith (snd ?r2) (ancestorLoopWith ops cmp ind g fuel p1 p2 rest (addPathPairsWith ops ind f (fst ?r1) (fst ?r2) totalF) (snd ?r2))" .
  with r c show ?case by (simp add: ancestorLoopWith.simps keepsWith_def Let_def)
qed

section \<open>The value of a call when no cache lookup hits\<close>

text \<open>
  The text of the cached calculators with the three caches left out and the guard set
  as an argument, for any arithmetic: \<open>calculateInbreeding\<close> of an individual, and the
  loop of \<open>calculateOffspringInbreeding\<close> for a pair that \<open>localeCompare\<close> has already put
  in order.  The contributions are added in the order of that loop.
\<close>

function inbreedingNoHit ::
    "'f arith \<Rightarrow> localeCompare \<Rightarrow> bool \<Rightarrow> pedigree \<Rightarrow> ident set \<Rightarrow> ident \<Rightarrow> 'f"
  and pairNoHit ::
    "'f arith \<Rightarrow> localeCompare \<Rightarrow> bool \<Rightarrow> pedigree \<Rightarrow> ident set \<Rightarrow> ident \<Rightarrow> ident \<Rightarrow> 'f"
where
  "inbreedingNoHit ops cmp ind g guard a =
     (if a \<in> guard then fzero ops
      else (case getParent1 g a of None \<Rightarrow> fzero ops
            | Some p1 \<Rightarrow> (case getParent2 g a of None \<Rightarrow> fzero ops
               | Some p2 \<Rightarrow> pairNoHit ops cmp ind g (insert a guard)
                             (fst (orderPair cmp p1 p2)) (snd (orderPair cmp p1 p2)))))"
| "pairNoHit ops cmp ind g guard p1 p2 =
     foldl (\<lambda>totalF ancestor.
         addPathPairsWith ops ind (inbreedingNoHit ops cmp ind g guard ancestor)
           (findPathsToAncestorDFS g p1 ancestor) (findPathsToAncestorDFS g p2 ancestor) totalF)
       (fzero ops) (commonList ind g p1 p2)"
  by pat_completeness auto

termination inbreedingNoHit
proof (relation "measure (\<lambda>x. case x of Inl (ops, cmp, ind, g, guard, a) \<Rightarrow> 2 * guardMeasure g guard
                                 | Inr (ops, cmp, ind, g, guard, p, q) \<Rightarrow> 2 * guardMeasure g guard + 1)", goal_cases)
  case 1
  show ?case by simp
next
  case 2
  then show ?case by (auto dest!: guardMeasure_insert)
next
  case 3
  show ?case by simp
qed

declare inbreedingNoHit.simps [simp del]
declare pairNoHit.simps [simp del]

definition offspringNoHit ::
  "'f arith \<Rightarrow> localeCompare \<Rightarrow> bool \<Rightarrow> pedigree \<Rightarrow> ident set \<Rightarrow> ident \<Rightarrow> ident \<Rightarrow> 'f" where
  "offspringNoHit ops cmp ind g guard a b =
     pairNoHit ops cmp ind g guard (fst (orderPair cmp a b)) (snd (orderPair cmp a b))"

definition loopStep ::
  "'f arith \<Rightarrow> localeCompare \<Rightarrow> bool \<Rightarrow> pedigree \<Rightarrow> ident \<Rightarrow> ident \<Rightarrow> 'f \<Rightarrow> ident \<Rightarrow> 'f" where
  "loopStep ops cmp ind g p1 p2 totalF ancestor =
     addPathPairsWith ops ind (inbreedingNoHit ops cmp ind g {} ancestor)
       (findPathsToAncestorDFS g p1 ancestor) (findPathsToAncestorDFS g p2 ancestor) totalF"

lemma pairNoHit_loopStep:
  "pairNoHit ops cmp ind g {} p1 p2 = foldl (loopStep ops cmp ind g p1 p2) (fzero ops) (commonList ind g p1 p2)"
  by (simp add: pairNoHit.simps loopStep_def[abs_def])

subsection \<open>On an acyclic pedigree the guard set never fires\<close>

lemma pairNoHit_cong:
  assumes "\<And>A. A \<in> closure g p1 \<inter> closure g p2
    \<Longrightarrow> inbreedingNoHit ops cmp ind g G A = inbreedingNoHit ops cmp ind g G' A"
  shows "pairNoHit ops cmp ind g G p1 p2 = pairNoHit ops cmp ind g G' p1 p2"
  unfolding pairNoHit.simps
  by (rule foldl_cong[OF refl refl]) (simp add: assms set_commonList)

lemma inbreedingNoHit_guard_free:
  assumes ac: "acyclic (parentEdges g)"
  shows "guard \<inter> closure g a = {}
    \<Longrightarrow> inbreedingNoHit ops cmp ind g guard a = inbreedingNoHit ops cmp ind g {} a"
proof (induction a arbitrary: guard rule: wf_induct_rule[OF wf_ancestors[OF ac]])
  case (1 a)
  have an: "a \<notin> guard" using 1(2) closure_refl[of a g] by blast
  show ?case
  proof (cases "getParent1 g a")
    case None
    then show ?thesis by (simp add: inbreedingNoHit.simps[of ops cmp ind g _ a] an)
  next
    case (Some p1)
    show ?thesis
    proof (cases "getParent2 g a")
      case None
      with Some show ?thesis by (simp add: inbreedingNoHit.simps[of ops cmp ind g _ a] an)
    next
      case (Some p2)
      let ?q1 = "fst (orderPair cmp p1 p2)" and ?q2 = "snd (orderPair cmp p1 p2)"
      have e1: "(a, p1) \<in> parentEdges g" using \<open>getParent1 g a = Some p1\<close> by (rule parent_edge)
      have eq: "inbreedingNoHit ops cmp ind g G A = inbreedingNoHit ops cmp ind g {} A"
        if A: "A \<in> closure g ?q1 \<inter> closure g ?q2" and G: "(G - {a}) \<inter> closure g a = {}" for A G
      proof -
        from A have A': "A \<in> closure g p1 \<inter> closure g p2" by (simp only: orderPair_closure)
        then have Ap: "(p1, A) \<in> (parentEdges g)\<^sup>*" by (simp add: closure_def)
        with e1 have aA: "(a, A) \<in> (parentEdges g)\<^sup>+" by (rule rtrancl_into_trancl2)
        have sub: "closure g A \<subseteq> closure g a"
          using A' closure_trans[of A g p1] parent_closure[OF e1] by blast
        have "a \<notin> closure g A"
        proof
          assume "a \<in> closure g A"
          then have "(A, a) \<in> (parentEdges g)\<^sup>*" by (simp add: closure_def)
          with aA have "(a, a) \<in> (parentEdges g)\<^sup>+" by (rule trancl_rtrancl_trancl)
          with ac show False by (simp add: acyclic_def)
        qed
        with sub G have "G \<inter> closure g A = {}" by blast
        from 1(1)[of A G, OF _ this] aA show ?thesis by simp
      qed
      have g1: "(insert a guard - {a}) \<inter> closure g a = {}" using 1(2) by blast
      have g2: "({a} - {a}) \<inter> closure g a = {}" by simp
      have "pairNoHit ops cmp ind g (insert a guard) ?q1 ?q2 = pairNoHit ops cmp ind g {} ?q1 ?q2"
        by (rule pairNoHit_cong) (rule eq[OF _ g1])
      moreover have "pairNoHit ops cmp ind g {a} ?q1 ?q2 = pairNoHit ops cmp ind g {} ?q1 ?q2"
        by (rule pairNoHit_cong) (rule eq[OF _ g2])
      ultimately show ?thesis
        using \<open>getParent1 g a = Some p1\<close> Some an
        by (simp add: inbreedingNoHit.simps[of ops cmp ind g _ a])
    qed
  qed
qed

lemma pairNoHit_guard_free:
  assumes "acyclic (parentEdges g)" "guard \<inter> closure g p = {}"
  shows "pairNoHit ops cmp ind g guard p q = pairNoHit ops cmp ind g {} p q"
proof (rule pairNoHit_cong)
  fix A assume "A \<in> closure g p \<inter> closure g q"
  with assms(2) closure_trans[of A g p] have "guard \<inter> closure g A = {}" by blast
  from inbreedingNoHit_guard_free[OF assms(1) this]
  show "inbreedingNoHit ops cmp ind g guard A = inbreedingNoHit ops cmp ind g {} A" .
qed

lemma inbreedingNoHit_parents:
  assumes "acyclic (parentEdges g)" "getParent1 g a = Some p1" "getParent2 g a = Some p2"
  shows "inbreedingNoHit ops cmp ind g {} a = offspringNoHit ops cmp ind g {} p1 p2"
proof -
  have "a \<notin> closure g p1" "a \<notin> closure g p2"
    using acyclic_parent_notin[OF assms(1)] parent_edge(1)[OF assms(2)] parent_edge(2)[OF assms(3)]
    by blast+
  then have "{a} \<inter> closure g (fst (orderPair cmp p1 p2)) = {}"
    using orderPair_cases[of cmp p1 p2] by auto
  from pairNoHit_guard_free[OF assms(1) this] assms(2,3) show ?thesis
    by (simp add: inbreedingNoHit.simps[of ops cmp ind g "{}" a] offspringNoHit_def)
qed

lemma inbreedingNoHit_no_parents:
  "getParent1 g a = None \<or> getParent2 g a = None \<Longrightarrow> inbreedingNoHit ops cmp ind g guard a = fzero ops"
  by (auto simp: inbreedingNoHit.simps[of ops cmp ind g guard a] split: option.splits)

section \<open>Cache transparency for any arithmetic\<close>

text \<open>
  Every cache entry is the value that the calculation gives for its key when no lookup
  hits.  The state of a fresh calculator has this property, and every call on an acyclic
  pedigree with identifiers free of the key separators keeps it.
\<close>

definition cacheSoundWith ::
  "'f arith \<Rightarrow> localeCompare \<Rightarrow> bool \<Rightarrow> pedigree \<Rightarrow> 'f calculator \<Rightarrow> bool" where
  "cacheSoundWith ops cmp ind g st =
     ((\<forall>a v. inbreedingCache st a = Some v \<longrightarrow> v = inbreedingNoHit ops cmp ind g {} a)
    \<and> (\<forall>k v. offspringInbreedingCache st k = Some v \<longrightarrow>
           (\<exists>p q. plain p \<and> k = cacheKey p q \<and> v = pairNoHit ops cmp ind g {} p q))
    \<and> (\<forall>k ps. pathCache st k = Some ps \<longrightarrow>
           (\<exists>s t. plain s \<and> k = pathKey s t \<and> ps = findPathsToAncestorDFS g s t)))"

lemma cacheSoundWith_new: "cacheSoundWith ops cmp ind g newCalculator"
  by (simp add: cacheSoundWith_def newCalculator_def)

lemma cacheSoundWith_guard [simp]:
  "cacheSoundWith ops cmp ind g (st\<lparr>currentlyCalculatingF := S\<rparr>) = cacheSoundWith ops cmp ind g st"
  by (simp add: cacheSoundWith_def)

lemma cacheSoundWith_inbreeding:
  "cacheSoundWith ops cmp ind g st \<Longrightarrow> v = inbreedingNoHit ops cmp ind g {} a
     \<Longrightarrow> cacheSoundWith ops cmp ind g (st\<lparr>inbreedingCache := (inbreedingCache st)(a \<mapsto> v)\<rparr>)"
  by (simp add: cacheSoundWith_def)

lemma cacheSoundWith_offspring:
  "cacheSoundWith ops cmp ind g st \<Longrightarrow> plain p \<Longrightarrow> v = pairNoHit ops cmp ind g {} p q
     \<Longrightarrow> cacheSoundWith ops cmp ind g
           (st\<lparr>offspringInbreedingCache := (offspringInbreedingCache st)(cacheKey p q \<mapsto> v)\<rparr>)"
  unfolding cacheSoundWith_def by (simp, blast)

lemma cacheSoundWith_hit_inbreeding:
  "cacheSoundWith ops cmp ind g st \<Longrightarrow> inbreedingCache st a = Some v
     \<Longrightarrow> v = inbreedingNoHit ops cmp ind g {} a"
  by (simp add: cacheSoundWith_def)

lemma cacheSoundWith_hit_offspring:
  assumes "cacheSoundWith ops cmp ind g st" "offspringInbreedingCache st (cacheKey p q) = Some v" "plain p"
  shows "v = pairNoHit ops cmp ind g {} p q"
proof -
  from assms(1,2) obtain p' q' where "plain p'" "cacheKey p q = cacheKey p' q'"
    "v = pairNoHit ops cmp ind g {} p' q'" unfolding cacheSoundWith_def by blast
  with cacheKey_inj[OF assms(3), of p' q q'] show ?thesis by simp
qed

lemma findPaths_cache_soundWith:
  assumes "cacheSoundWith ops cmp ind g st" "plain s"
  shows "fst (findPathsToAncestorWithCache g st s t) = findPathsToAncestorDFS g s t"
    and "cacheSoundWith ops cmp ind g (snd (findPathsToAncestorWithCache g st s t))"
proof -
  show "fst (findPathsToAncestorWithCache g st s t) = findPathsToAncestorDFS g s t"
  proof (cases "pathCache st (pathKey s t)")
    case None
    then show ?thesis by (simp add: findPathsToAncestorWithCache_def Let_def)
  next
    case (Some ps)
    with assms(1) obtain s' t' where "plain s'" "pathKey s t = pathKey s' t'"
      "ps = findPathsToAncestorDFS g s' t'" unfolding cacheSoundWith_def by blast
    with pathKey_inj[OF assms(2), of s' t t'] Some show ?thesis
      by (simp add: findPathsToAncestorWithCache_def)
  qed
  show "cacheSoundWith ops cmp ind g (snd (findPathsToAncestorWithCache g st s t))"
  proof (cases "pathCache st (pathKey s t)")
    case None
    with assms show ?thesis
      unfolding cacheSoundWith_def by (simp add: findPathsToAncestorWithCache_def Let_def, blast)
  next
    case (Some ps)
    with assms(1) show ?thesis by (simp add: findPathsToAncestorWithCache_def)
  qed
qed

text \<open>
  A call that returns gives the expected value, keeps the caches sound and leaves
  \<open>currentlyCalculatingF\<close> as it found it.
\<close>

definition agreesWith ::
  "'f arith \<Rightarrow> localeCompare \<Rightarrow> bool \<Rightarrow> pedigree \<Rightarrow> 'f calculator \<Rightarrow> 'f
     \<Rightarrow> ('f \<times> 'f calculator) option \<Rightarrow> bool" where
  "agreesWith ops cmp ind g st expected r =
     (case r of None \<Rightarrow> True
      | Some (v, st') \<Rightarrow> v = expected \<and> cacheSoundWith ops cmp ind g st'
          \<and> currentlyCalculatingF st' = currentlyCalculatingF st)"

lemma agreesWithI:
  "v = expected \<Longrightarrow> cacheSoundWith ops cmp ind g st'
     \<Longrightarrow> currentlyCalculatingF st' = currentlyCalculatingF st
     \<Longrightarrow> agreesWith ops cmp ind g st expected (Some (v, st'))"
  by (simp add: agreesWith_def)

lemma agreesWith_None [simp]: "agreesWith ops cmp ind g st expected None"
  by (simp add: agreesWith_def)

lemma agreesWithD:
  assumes "agreesWith ops cmp ind g st expected r" "r = Some (v, st')"
  shows "v = expected" "cacheSoundWith ops cmp ind g st'"
    "currentlyCalculatingF st' = currentlyCalculatingF st"
  using assms by (simp_all add: agreesWith_def)

lemma calcOffCWith_hit:
  assumes "offspringInbreedingCache st (cacheKey (fst (orderPair cmp a b)) (snd (orderPair cmp a b))) = Some v"
  shows "calculateOffspringInbreedingCWith ops cmp ind g fuel st (Some a) (Some b) = Some (v, st)"
  unfolding calculateOffspringInbreedingCWith.simps Let_def by (simp only: assms option.case)

lemma calcOffCWith_early:
  assumes "offspringInbreedingCache st (cacheKey (fst (orderPair cmp a b)) (snd (orderPair cmp a b))) = None"
    and "ind \<and> commonList ind g (fst (orderPair cmp a b)) (snd (orderPair cmp a b)) = []"
  shows "calculateOffspringInbreedingCWith ops cmp ind g fuel st (Some a) (Some b)
    = Some (fzero ops, st\<lparr>offspringInbreedingCache := (offspringInbreedingCache st)
         (cacheKey (fst (orderPair cmp a b)) (snd (orderPair cmp a b)) \<mapsto> fzero ops)\<rparr>)"
  unfolding calculateOffspringInbreedingCWith.simps Let_def commonList_def[symmetric]
  by (simp only: assms(1) option.case if_P[OF assms(2)])

lemma calcOffCWith_loop:
  assumes "offspringInbreedingCache st (cacheKey (fst (orderPair cmp a b)) (snd (orderPair cmp a b))) = None"
    and "\<not> (ind \<and> commonList ind g (fst (orderPair cmp a b)) (snd (orderPair cmp a b)) = [])"
  shows "calculateOffspringInbreedingCWith ops cmp ind g fuel st (Some a) (Some b)
    = (case ancestorLoopWith ops cmp ind g fuel (fst (orderPair cmp a b)) (snd (orderPair cmp a b))
              (commonList ind g (fst (orderPair cmp a b)) (snd (orderPair cmp a b))) (fzero ops) st of
         None \<Rightarrow> None
       | Some (totalF, st') \<Rightarrow>
           Some (totalF, st'\<lparr>offspringInbreedingCache := (offspringInbreedingCache st')
              (cacheKey (fst (orderPair cmp a b)) (snd (orderPair cmp a b)) \<mapsto> totalF)\<rparr>))"
  unfolding calculateOffspringInbreedingCWith.simps Let_def commonList_def[symmetric]
  by (simp only: assms(1) option.case if_not_P[OF assms(2)])

lemma engine_soundWith:
  "a = Some x \<Longrightarrow> acyclic (parentEdges g) \<Longrightarrow> cacheSoundWith ops cmp ind g st
     \<Longrightarrow> currentlyCalculatingF st \<inter> closure g x = {} \<Longrightarrow> (\<And>z. z \<in> closure g x \<Longrightarrow> plain z)
     \<Longrightarrow> agreesWith ops cmp ind g st (inbreedingNoHit ops cmp ind g {} x)
           (calculateInbreedingCWith ops cmp ind g fuel st a)"
  "p = Some x \<Longrightarrow> q = Some y \<Longrightarrow> acyclic (parentEdges g) \<Longrightarrow> cacheSoundWith ops cmp ind g st
     \<Longrightarrow> currentlyCalculatingF st \<inter> (closure g x \<union> closure g y) = {}
     \<Longrightarrow> (\<And>z. z \<in> closure g x \<union> closure g y \<Longrightarrow> plain z)
     \<Longrightarrow> agreesWith ops cmp ind g st (offspringNoHit ops cmp ind g {} x y)
           (calculateOffspringInbreedingCWith ops cmp ind g fuel st p q)"
  "acyclic (parentEdges g) \<Longrightarrow> cacheSoundWith ops cmp ind g st
     \<Longrightarrow> currentlyCalculatingF st \<inter> (closure g p1 \<union> closure g p2) = {}
     \<Longrightarrow> (\<And>z. z \<in> closure g p1 \<union> closure g p2 \<Longrightarrow> plain z)
     \<Longrightarrow> set xs \<subseteq> closure g p1 \<inter> closure g p2
     \<Longrightarrow> agreesWith ops cmp ind g st (foldl (loopStep ops cmp ind g p1 p2) totalF xs)
           (ancestorLoopWith ops cmp ind g fuel p1 p2 xs totalF st)"
proof (induction ops cmp ind g fuel st a and ops cmp ind g fuel st p q and ops cmp ind g fuel p1 p2 xs totalF st
    arbitrary: x and x y and
    rule: calculateInbreedingCWith_calculateOffspringInbreedingCWith_ancestorLoopWith.induct)
  case (1 ops cmp ind g fuel st)
  then show ?case by simp
next
  case (2 ops cmp ind g fuel st a)
  from 2(2) have xa: "x = a" by simp
  note ac = 2(3) and snd = 2(4) and dis = 2(5)[unfolded xa] and pl = 2(6)[unfolded xa]
  let ?st1 = "st\<lparr>currentlyCalculatingF := insert a (currentlyCalculatingF st)\<rparr>"
  have ang: "a \<notin> currentlyCalculatingF st" using dis closure_refl[of a g] by blast
  have "agreesWith ops cmp ind g st (inbreedingNoHit ops cmp ind g {} a)
      (calculateInbreedingCWith ops cmp ind g fuel st (Some a))"
  proof (cases "inbreedingCache st a")
    case (Some v)
    with cacheSoundWith_hit_inbreeding[OF snd Some] snd show ?thesis
      by (simp add: calculateInbreedingCWith.simps agreesWith_def)
  next
    case None
    note miss = None
    have fin: "agreesWith ops cmp ind g st (inbreedingNoHit ops cmp ind g {} a)
        (Some (f, s2\<lparr>inbreedingCache := (inbreedingCache s2)(a \<mapsto> f),
                     currentlyCalculatingF := currentlyCalculatingF s2 - {a}\<rparr>))"
      if "f = inbreedingNoHit ops cmp ind g {} a" "cacheSoundWith ops cmp ind g s2"
        "currentlyCalculatingF s2 = insert a (currentlyCalculatingF st)" for f s2
      using that ang by (intro agreesWithI) (simp_all add: cacheSoundWith_inbreeding)
    show ?thesis
    proof (cases "getParent1 g a")
      case None
      have "agreesWith ops cmp ind g st (inbreedingNoHit ops cmp ind g {} a)
        (Some (fzero ops, ?st1\<lparr>inbreedingCache := (inbreedingCache ?st1)(a \<mapsto> fzero ops),
                     currentlyCalculatingF := currentlyCalculatingF ?st1 - {a}\<rparr>))"
        by (rule fin) (simp_all add: inbreedingNoHit_no_parents None snd)
      with miss ang None show ?thesis by (simp add: calculateInbreedingCWith.simps Let_def)
    next
      case (Some p1)
      note P1 = Some
      show ?thesis
      proof (cases "getParent2 g a")
        case None
        have "agreesWith ops cmp ind g st (inbreedingNoHit ops cmp ind g {} a)
          (Some (fzero ops, ?st1\<lparr>inbreedingCache := (inbreedingCache ?st1)(a \<mapsto> fzero ops),
                       currentlyCalculatingF := currentlyCalculatingF ?st1 - {a}\<rparr>))"
          by (rule fin) (simp_all add: inbreedingNoHit_no_parents None snd)
        with miss ang P1 None show ?thesis by (simp add: calculateInbreedingCWith.simps Let_def)
      next
        case (Some p2)
        show ?thesis
        proof (cases fuel)
          case 0
          with miss ang P1 Some show ?thesis by (simp add: calculateInbreedingCWith.simps Let_def)
        next
          case (Suc n)
          have e1: "(a, p1) \<in> parentEdges g" and e2: "(a, p2) \<in> parentEdges g"
            using P1 Some by (simp_all add: parent_edge)
          have sub: "closure g p1 \<union> closure g p2 \<subseteq> closure g a"
            using parent_closure[OF e1] parent_closure[OF e2] by blast
          have an: "a \<notin> closure g p1 \<union> closure g p2"
            using acyclic_parent_notin[OF ac e1] acyclic_parent_notin[OF ac e2] by simp
          have d1: "currentlyCalculatingF ?st1 \<inter> (closure g p1 \<union> closure g p2) = {}"
            using dis sub an by auto
          have IH: "agreesWith ops cmp ind g ?st1 (offspringNoHit ops cmp ind g {} p1 p2)
              (calculateOffspringInbreedingCWith ops cmp ind g n ?st1 (Some p1) (Some p2))"
            using sub pl by (intro 2(1)[OF miss ang refl P1 Some Suc refl refl ac _ d1]) (auto simp: snd)
          show ?thesis
          proof (cases "calculateOffspringInbreedingCWith ops cmp ind g n ?st1 (Some p1) (Some p2)")
            case None
            with miss ang P1 Some Suc show ?thesis by (simp add: calculateInbreedingCWith.simps Let_def)
          next
            case (Some r)
            obtain f s2 where r: "r = (f, s2)" by (cases r)
            from agreesWithD[OF IH Some[unfolded r]]
            have "f = offspringNoHit ops cmp ind g {} p1 p2" "cacheSoundWith ops cmp ind g s2"
              "currentlyCalculatingF s2 = insert a (currentlyCalculatingF st)" by simp_all
            with inbreedingNoHit_parents[OF ac P1 \<open>getParent2 g a = Some p2\<close>, of ops cmp ind]
            have "agreesWith ops cmp ind g st (inbreedingNoHit ops cmp ind g {} a)
              (Some (f, s2\<lparr>inbreedingCache := (inbreedingCache s2)(a \<mapsto> f),
                     currentlyCalculatingF := currentlyCalculatingF s2 - {a}\<rparr>))"
              by (intro fin) simp_all
            with miss ang P1 \<open>getParent2 g a = Some p2\<close> Suc Some r show ?thesis
              by (simp add: calculateInbreedingCWith.simps Let_def)
          qed
        qed
      qed
    qed
  qed
  then show ?case by (simp add: xa)
next
  case (3 ops cmp ind g fuel st q)
  then show ?case by simp
next
  case (4 ops cmp ind g fuel st a)
  then show ?case by simp
next
  case (5 ops cmp ind g fuel st a b)
  from 5(2,3) have xy: "x = a" "y = b" by simp_all
  note ac = 5(4) and snd = 5(5) and dis = 5(6)[unfolded xy] and pl = 5(7)[unfolded xy]
  let ?p1 = "fst (orderPair cmp a b)" and ?p2 = "snd (orderPair cmp a b)"
  let ?common = "commonAncestorsOf (set_add (ancestorsFor ind g ?p1) ?p1) (set_add (ancestorsFor ind g ?p2) ?p2)"
  have cl: "closure g ?p1 \<union> closure g ?p2 = closure g a \<union> closure g b"
    using orderPair_cases[of cmp a b] by auto
  have spec: "offspringNoHit ops cmp ind g {} a b = pairNoHit ops cmp ind g {} ?p1 ?p2"
    by (simp add: offspringNoHit_def)
  have pp: "plain ?p1" using pl[of ?p1] cl closure_refl[of ?p1 g] by blast
  have cm: "?common = commonList ind g ?p1 ?p2" by (simp add: commonList_def)
  have "agreesWith ops cmp ind g st (offspringNoHit ops cmp ind g {} a b)
      (calculateOffspringInbreedingCWith ops cmp ind g fuel st (Some a) (Some b))"
  proof (cases "offspringInbreedingCache st (cacheKey ?p1 ?p2)")
    case (Some v)
    from cacheSoundWith_hit_offspring[OF snd Some pp] spec snd show ?thesis
      unfolding calcOffCWith_hit[OF Some] by (simp add: agreesWith_def)
  next
    case None
    show ?thesis
    proof (cases "ind \<and> commonList ind g ?p1 ?p2 = []")
      case True
      then have "commonList ind g ?p1 ?p2 = []" by blast
      then have "pairNoHit ops cmp ind g {} ?p1 ?p2 = fzero ops" by (simp add: pairNoHit.simps)
      then show ?thesis
        unfolding calcOffCWith_early[OF None True] using spec
        by (intro agreesWithI cacheSoundWith_offspring snd pp) simp_all
    next
      case False
      have F': "\<not> (ind \<and> ?common = [])" unfolding cm by (rule False)
      have IH: "agreesWith ops cmp ind g st (foldl (loopStep ops cmp ind g ?p1 ?p2) (fzero ops) ?common)
          (ancestorLoopWith ops cmp ind g fuel ?p1 ?p2 ?common (fzero ops) st)"
        using dis pl
        by (intro 5(1)[OF refl refl None refl F' ac snd]) (auto simp: cl cm set_commonList)
      show ?thesis
      proof (cases "ancestorLoopWith ops cmp ind g fuel ?p1 ?p2 (commonList ind g ?p1 ?p2) (fzero ops) st")
        case None
        then show ?thesis
          unfolding calcOffCWith_loop[OF \<open>offspringInbreedingCache st (cacheKey ?p1 ?p2) = None\<close> False]
          by simp
      next
        case (Some r)
        obtain t s' where r: "r = (t, s')" by (cases r)
        from agreesWithD[OF IH Some[unfolded r cm[symmetric]]]
        have t: "t = pairNoHit ops cmp ind g {} ?p1 ?p2" and s': "cacheSoundWith ops cmp ind g s'"
          and c: "currentlyCalculatingF s' = currentlyCalculatingF st"
          by (simp_all add: pairNoHit_loopStep cm)
        have "agreesWith ops cmp ind g st (offspringNoHit ops cmp ind g {} a b)
          (Some (t, s'\<lparr>offspringInbreedingCache := (offspringInbreedingCache s')(cacheKey ?p1 ?p2 \<mapsto> t)\<rparr>))"
          using t spec c by (intro agreesWithI cacheSoundWith_offspring s' pp) simp_all
        then show ?thesis
          unfolding calcOffCWith_loop[OF \<open>offspringInbreedingCache st (cacheKey ?p1 ?p2) = None\<close> False]
          by (simp add: Some r)
      qed
    qed
  qed
  then show ?case by (simp add: xy)
next
  case (6 ops cmp ind g fuel p1 p2 totalF st)
  then show ?case by (simp add: ancestorLoopWith.simps agreesWith_def)
next
  case (7 ops cmp ind g fuel p1 p2 ancestor rest totalF st)
  note ac = 7(3) and snd = 7(4) and dis = 7(5) and pl = 7(6) and sub = 7(7)
  have A: "ancestor \<in> closure g p1" "ancestor \<in> closure g p2" using sub by simp_all
  have clA: "closure g ancestor \<subseteq> closure g p1" using A(1) by (rule closure_trans)
  have IH1: "agreesWith ops cmp ind g st (inbreedingNoHit ops cmp ind g {} ancestor)
      (calculateInbreedingCWith ops cmp ind g fuel st (Some ancestor))"
    using dis pl clA by (intro 7(1)[OF refl ac snd]) auto
  show ?case
  proof (cases "calculateInbreedingCWith ops cmp ind g fuel st (Some ancestor)")
    case None
    then show ?thesis by (simp add: ancestorLoopWith.simps)
  next
    case (Some r)
    obtain f st1 where r: "r = (f, st1)" by (cases r)
    from agreesWithD[OF IH1 Some[unfolded r]]
    have f: "f = inbreedingNoHit ops cmp ind g {} ancestor" and s1: "cacheSoundWith ops cmp ind g st1"
      and c1: "currentlyCalculatingF st1 = currentlyCalculatingF st" by simp_all
    let ?r1 = "findPathsToAncestorWithCache g st1 p1 ancestor"
    let ?r2 = "findPathsToAncestorWithCache g (snd ?r1) p2 ancestor"
    have pp: "plain p1" "plain p2" using pl closure_refl by blast+
    have r1: "fst ?r1 = findPathsToAncestorDFS g p1 ancestor" "cacheSoundWith ops cmp ind g (snd ?r1)"
      using findPaths_cache_soundWith[OF s1 pp(1)] by simp_all
    have r2: "fst ?r2 = findPathsToAncestorDFS g p2 ancestor" "cacheSoundWith ops cmp ind g (snd ?r2)"
      using findPaths_cache_soundWith[OF r1(2) pp(2)] by simp_all
    have c2: "currentlyCalculatingF (snd ?r2) = currentlyCalculatingF st" using c1 by simp
    have IH2: "agreesWith ops cmp ind g (snd ?r2)
        (foldl (loopStep ops cmp ind g p1 p2) (addPathPairsWith ops ind f (fst ?r1) (fst ?r2) totalF) rest)
        (ancestorLoopWith ops cmp ind g fuel p1 p2 rest (addPathPairsWith ops ind f (fst ?r1) (fst ?r2) totalF) (snd ?r2))"
      using dis pl sub by (intro 7(2)[OF Some[unfolded r] refl refl refl ac r2(2)]) (auto simp: c1)
    have val: "foldl (loopStep ops cmp ind g p1 p2) (addPathPairsWith ops ind f (fst ?r1) (fst ?r2) totalF) rest
        = foldl (loopStep ops cmp ind g p1 p2) totalF (ancestor # rest)"
      by (simp add: r1(1) r2(1) f loopStep_def)
    from IH2 show ?thesis
      unfolding val using Some r c2
      by (auto simp: ancestorLoopWith.simps Let_def agreesWith_def split: option.splits prod.splits)
  qed
qed

section \<open>What the cached calculators return, for any arithmetic\<close>

text \<open>
  From a state whose caches are sound and whose guard set is empty (the state of a fresh
  calculator, and the state after any number of calls), on an acyclic pedigree whose
  identifiers are free of the key separators: the call returns, its value is bit for bit
  the value of the calculation without a cache hit, and the state it leaves is again
  such a state.
\<close>

lemma transparentWith:
  assumes "acyclic (parentEdges g)" "cacheSoundWith ops cmp ind g st" "currentlyCalculatingF st = {}"
    and "\<And>z. z \<in> closure g a \<union> closure g b \<Longrightarrow> plain z" "length g \<le> fuel"
  shows "\<exists>st'. calculateOffspringInbreedingCWith ops cmp ind g fuel st (Some a) (Some b)
                 = Some (offspringNoHit ops cmp ind g {} a b, st')
             \<and> cacheSoundWith ops cmp ind g st' \<and> currentlyCalculatingF st' = {}"
proof -
  have "guardMeasure g (currentlyCalculatingF st) \<le> fuel"
    using guardMeasure_empty[of g] assms(3,5) by simp
  from engine_totalWith(2)[OF this, of ops cmp ind "Some a" "Some b"]
  obtain v st' where r: "calculateOffspringInbreedingCWith ops cmp ind g fuel st (Some a) (Some b) = Some (v, st')"
    by (auto simp: keepsWith_def)
  have "agreesWith ops cmp ind g st (offspringNoHit ops cmp ind g {} a b)
      (calculateOffspringInbreedingCWith ops cmp ind g fuel st (Some a) (Some b))"
    using assms(3,4) by (intro engine_soundWith(2)[OF refl refl assms(1,2)]) auto
  from agreesWithD[OF this r] r assms(3) show ?thesis by simp
qed

text \<open>
  With exact arithmetic the order of the additions does not matter, and the value
  without a cache hit is the value of either mode without memoization.
\<close>

lemma addPathPairsWith_exact_closed:
  "addPathPairsWith exactArith ind f ps qs t = t + pairSum ind ps qs * (1 + f)"
  by (simp add: addPathPairsWith_exact addPathPairsC_closed)

lemma noHit_exact:
  "inbreedingNoHit exactArith cmp ind g guard a = inbreedingU ind g guard a"
  "pairNoHit exactArith cmp ind g guard p q = offspringU ind g guard p q"
proof (induction exactArith cmp ind g guard a and exactArith cmp ind g guard p q
    rule: inbreedingNoHit_pairNoHit.induct)
  case (1 cmp ind g guard a)
  show ?case
  proof (cases "a \<in> guard")
    case True
    then show ?thesis by (simp add: inbreedingNoHit.simps[of _ cmp ind g guard a] inbreedingU.simps[of ind g guard a])
  next
    case False
    show ?thesis
    proof (cases "getParent1 g a")
      case None
      with False show ?thesis
        by (simp add: inbreedingNoHit.simps[of _ cmp ind g guard a] inbreedingU.simps[of ind g guard a])
    next
      case (Some p1)
      show ?thesis
      proof (cases "getParent2 g a")
        case None
        with False Some show ?thesis
          by (simp add: inbreedingNoHit.simps[of _ cmp ind g guard a] inbreedingU.simps[of ind g guard a])
      next
        case (Some p2)
        from 1[OF False \<open>getParent1 g a = Some p1\<close> Some]
        have "pairNoHit exactArith cmp ind g (insert a guard) (fst (orderPair cmp p1 p2)) (snd (orderPair cmp p1 p2))
            = offspringU ind g (insert a guard) (fst (orderPair cmp p1 p2)) (snd (orderPair cmp p1 p2))" .
        also have "\<dots> = offspringU ind g (insert a guard) p1 p2"
          using orderPair_cases[of cmp p1 p2] offspringU_commute[of ind g "insert a guard" p2 p1] by auto
        finally show ?thesis using False \<open>getParent1 g a = Some p1\<close> Some
          by (simp add: inbreedingNoHit.simps[of _ cmp ind g guard a] inbreedingU.simps[of ind g guard a])
      qed
    qed
  qed
next
  case (2 cmp ind g guard p1 p2)
  have "foldl (\<lambda>totalF ancestor.
         addPathPairsWith exactArith ind (inbreedingNoHit exactArith cmp ind g guard ancestor)
           (findPathsToAncestorDFS g p1 ancestor) (findPathsToAncestorDFS g p2 ancestor) totalF) t xs
      = t + sum_list (map (termU ind g guard p1 p2) xs)"
    if "set xs \<subseteq> set (commonList ind g p1 p2)" for xs t
    using that
  proof (induction xs arbitrary: t)
    case Nil
    show ?case by simp
  next
    case (Cons x xs)
    from Cons.prems have "x \<in> set (commonList ind g p1 p2)" by simp
    from 2[OF this] Cons show ?case
      by (simp add: addPathPairsWith_exact_closed termU_def)
  qed
  from this[of "commonList ind g p1 p2" 0] show ?case
    by (simp add: pairNoHit.simps offspringU_list)
qed

lemma offspringNoHit_exact:
  "offspringNoHit exactArith cmp ind g guard a b = offspringU ind g guard a b"
  unfolding offspringNoHit_def noHit_exact
  using orderPair_cases[of cmp a b] offspringU_commute[of ind g guard b a] by auto

lemma offspringNoHit_exact_full:
  "offspringNoHit exactArith cmp False g guard a b = calculateOffspringInbreeding g guard (Some a) (Some b)"
  by (simp add: offspringNoHit_exact U_False)

text \<open>
  When \<open>localeCompare\<close> puts exactly one of two identifiers first, the two orders of the
  arguments are the same call.
\<close>

lemma cachedWith_symmetric:
  assumes "a = b \<or> (0 < cmp a b) \<noteq> (0 < cmp b a)"
  shows "calculateOffspringInbreedingCWith ops cmp ind g fuel st (Some a) (Some b)
       = calculateOffspringInbreedingCWith ops cmp ind g fuel st (Some b) (Some a)"
proof (cases "a = b")
  case True
  then show ?thesis by simp
next
  case False
  with assms have "orderPair cmp a b = orderPair cmp b a" by (simp add: orderPair_swap)
  then show ?thesis by (simp add: calculateOffspringInbreedingCWith.simps)
qed

section \<open>Claims\<close>

text \<open>
  C1.  The claim says that an input that passes the top-level validation never makes
  \<open>calculateBreedingInbreeding\<close> raise, missing-value tokens included.  The code raises,
  in the file with the shared calculator and in the strict-pairing file alike: on the
  example of its own documentation, whose absent fields become the key \<open>'undefined'\<close> of
  \<open>relationships\<close>, and on a record whose \<open>mId\<close> is the string \<open>'null'\<close>;
  \<open>getOrCreateAnimal\<close> lets both through to the \<open>Animal\<close> constructor, which throws.
\<close>

theorem C1_missing_value_tokens_raise:
  "calculateBreedingInbreedingShared cmp fuel (Some cowDoc) (Some [bullDoc])
     = Some (Inl (InvalidAnimalId ''undefined''))
   \<and> calculateBreedingInbreedingShared cmp fuel (Some cowNullToken) (Some [bullPlain])
     = Some (Inl (InvalidAnimalId ''null''))
   \<and> calculateBreedingInbreeding (Some cowDoc) (Some [bullDoc]) = Inl (InvalidAnimalId ''undefined'')
   \<and> calculateBreedingInbreeding (Some cowNullToken) (Some [bullPlain]) = Inl (InvalidAnimalId ''null'')"
  by (simp add: shared_doc shared_nullToken calculateBreedingInbreeding_def cow_ids pairResult_doc
      pairResult_nullToken)

text \<open>
  C2.  The claim has two halves.  The second fails on half siblings through a dam whose
  parents are known: no common ancestor is inbred, yet full accumulation returns \<open>3/16\<close>
  and the independent-path mode \<open>1/8\<close>.  The first fails on a pedigree with a cycle, where
  the cached independent-path calculator returns more than the cached full-accumulation
  calculator.
\<close>

theorem C2_counterexample_half_siblings_and_cycle:
  "closure pedigreeHalfSibs ''B'' \<inter> closure pedigreeHalfSibs ''C'' = {''X'', ''M0'', ''F0''}
   \<and> returnsValue (calculateInbreedingC codeUnitCompare False pedigreeHalfSibs 3 newCalculator (Some ''X'')) 0
   \<and> returnsValue (calculateInbreedingC codeUnitCompare False pedigreeHalfSibs 3 newCalculator (Some ''M0'')) 0
   \<and> returnsValue (calculateInbreedingC codeUnitCompare False pedigreeHalfSibs 3 newCalculator (Some ''F0'')) 0
   \<and> returnsValue (calculateInbreedingC codeUnitCompare True pedigreeHalfSibs 3 newCalculator (Some ''X'')) 0
   \<and> returnsValue (calculateInbreedingC codeUnitCompare True pedigreeHalfSibs 3 newCalculator (Some ''M0'')) 0
   \<and> returnsValue (calculateInbreedingC codeUnitCompare True pedigreeHalfSibs 3 newCalculator (Some ''F0'')) 0
   \<and> returnsValue (calculateOffspringInbreedingC codeUnitCompare False pedigreeHalfSibs 3 newCalculator
        (Some ''B'') (Some ''C'')) (3/16)
   \<and> returnsValue (calculateOffspringInbreedingC codeUnitCompare True pedigreeHalfSibs 3 newCalculator
        (Some ''B'') (Some ''C'')) (1/8)
   \<and> returnsValue (calculateOffspringInbreedingC codeUnitCompare False pedigreeLoop 3 newCalculator
        (Some ''A'') (Some ''C'')) (1353/512)
   \<and> returnsValue (calculateOffspringInbreedingC codeUnitCompare True pedigreeLoop 3 newCalculator
        (Some ''A'') (Some ''C'')) (1371/512)"
  by (simp add: halfSibs_closure halfSibs_not_inbred halfSibs_full halfSibs_independent
      loop_full loop_independent)

text \<open>
  C2, amended.  On an acyclic pedigree in which no identifier of the two ancestor
  closures contains a comma or a hyphen, both cached calculators return, the
  full-accumulation coefficient is at least the independent-path coefficient, and the
  two are equal when every common ancestor of the pair is a founder.
\<close>

theorem C2_full_accumulation_at_least_independent:
  assumes "acyclic (parentEdges g)" "\<forall>z \<in> closure g a \<union> closure g b. plain z" "length g \<le> fuel"
  shows "\<exists>full indep.
           returnsValue (calculateOffspringInbreedingC cmp False g fuel newCalculator (Some a) (Some b)) full
         \<and> returnsValue (calculateOffspringInbreedingC cmp True g fuel newCalculator (Some a) (Some b)) indep
         \<and> indep \<le> full
         \<and> ((\<forall>m \<in> closure g a \<inter> closure g b. founder g m) \<longrightarrow> indep = full)"
proof (intro exI conjI impI)
  show "returnsValue (calculateOffspringInbreedingC cmp False g fuel newCalculator (Some a) (Some b))
      (offspringU False g {} a b)"
    using offspring_transparent[OF assms(1) _ assms(3)] assms(2) by blast
  show "returnsValue (calculateOffspringInbreedingC cmp True g fuel newCalculator (Some a) (Some b))
      (offspringU True g {} a b)"
    using offspring_transparent[OF assms(1) _ assms(3)] assms(2) by blast
  show "offspringU True g {} a b \<le> offspringU False g {} a b" by (rule U_mono)
  assume "\<forall>m \<in> closure g a \<inter> closure g b. founder g m"
  then show "offspringU True g {} a b = offspringU False g {} a b"
    by (intro founders_modes_equal) blast
qed

theorem C2_full_accumulation_witness:
  "acyclic (parentEdges pedigreeSiblings)
   \<and> closure pedigreeSiblings ''a'' \<inter> closure pedigreeSiblings ''b'' = {''dam'', ''sire''}
   \<and> founder pedigreeSiblings ''dam'' \<and> founder pedigreeSiblings ''sire''
   \<and> (\<exists>v. returnsValue (calculateOffspringInbreedingC codeUnitCompare False pedigreeSiblings 4 newCalculator
              (Some ''a'') (Some ''b'')) v
          \<and> returnsValue (calculateOffspringInbreedingC codeUnitCompare True pedigreeSiblings 4 newCalculator
              (Some ''a'') (Some ''b'')) v)"
proof -
  have p: "\<forall>z \<in> closure pedigreeSiblings ''a'' \<union> closure pedigreeSiblings ''b''. plain z"
    using siblings_plain by blast
  have l: "length pedigreeSiblings \<le> 4" by (simp add: pedigreeSiblings_def)
  have c: "closure pedigreeSiblings ''a'' \<inter> closure pedigreeSiblings ''b'' = {''dam'', ''sire''}"
    by (auto simp: closure_siblings)
  have f: "\<forall>m \<in> closure pedigreeSiblings ''a'' \<inter> closure pedigreeSiblings ''b''. founder pedigreeSiblings m"
    by (simp add: c siblings_facts)
  from C2_full_accumulation_at_least_independent[OF siblings_acyclic p l, of codeUnitCompare] f
  show ?thesis using siblings_acyclic c siblings_facts(5,6) by auto
qed

text \<open>
  C3.  The claim bounds every reported coefficient by \<open>1\<close> on acyclic pedigrees.  For the
  backcross records the loaded pedigree is acyclic and the reported coefficient is
  \<open>19/16\<close>.
\<close>

theorem C3_counterexample_backcross:
  "loadPedigreeFromJson True [] [cowBackcross, bullBackcross] = Inr pedigreeBackcross
   \<and> acyclic (parentEdges pedigreeBackcross)
   \<and> calculateBreedingInbreeding (Some cowBackcross) (Some [bullBackcross])
       = Inr [\<lparr>bullId = ''B'', cowId = ''C'', inbreedingCoefficient = 19/16\<rparr>]
   \<and> \<not> (inbreedingCoefficient \<lparr>bullId = ''B'', cowId = ''C'', inbreedingCoefficient = 19/16\<rparr> \<le> 1)"
  by (simp add: load_backcross acyclic_backcross batch_backcross)

text \<open>
  C3, amended.  Every coefficient that \<open>calculateBreedingInbreeding\<close> reports is at least
  \<open>0\<close>, for every pedigree; no upper bound is claimed.
\<close>

theorem C3_coefficient_nonnegative:
  assumes "calculateBreedingInbreeding cowRecord bullRecordsArray = Inr rs" "r \<in> set rs"
  shows "0 \<le> inbreedingCoefficient r"
proof (cases "\<exists>cow bulls. cowRecord = Some cow \<and> bullRecordsArray = Some bulls
    \<and> truthy (jsOr (sId cow) (sid cow)) \<and> bulls \<noteq> []")
  case True
  then obtain cow bulls where "cowRecord = Some cow" "bullRecordsArray = Some bulls"
    "truthy (jsOr (sId cow) (sid cow))" "bulls \<noteq> []" by blast
  with assms(1) have "pairLoop cow bulls [] = Inr rs"
    by (simp add: calculateBreedingInbreeding_def)
  from pairLoop_nonneg[OF this _ assms(2)] show ?thesis by simp
next
  case False
  with assms(1) have "rs = []"
    by (auto simp: calculateBreedingInbreeding_def split: option.splits if_splits)
  with assms(2) show ?thesis by simp
qed

theorem C3_coefficient_nonnegative_witness:
  "calculateBreedingInbreeding (Some cowBackcross) (Some [bullPlain, bullBackcross])
     = Inr [\<lparr>bullId = ''D'', cowId = ''C'', inbreedingCoefficient = 0\<rparr>,
            \<lparr>bullId = ''B'', cowId = ''C'', inbreedingCoefficient = 19/16\<rparr>]
   \<and> 0 \<le> inbreedingCoefficient \<lparr>bullId = ''B'', cowId = ''C'', inbreedingCoefficient = 19/16\<rparr>"
  using C3_coefficient_nonnegative[OF batch_two,
      of "\<lparr>bullId = ''B'', cowId = ''C'', inbreedingCoefficient = 19/16\<rparr>"]
  by (simp add: batch_two)








text \<open>
  C7.  The path enumeration returns exactly the simple paths from start to target along
  parent edges; the single one-node path when start and target are equal; and no path
  when the target is not in the ancestor closure of the start.
\<close>

theorem C7_simple_paths:
  "set (findPathsToAncestorDFS g start target) = simplePaths g start target
   \<and> findPathsToAncestorDFS g start start = [[start]]
   \<and> (target \<notin> closure g start \<longrightarrow> findPathsToAncestorDFS g start target = [])"
proof (intro conjI impI)
  show "set (findPathsToAncestorDFS g start target) = simplePaths g start target"
    by (rule findPaths_simplePaths)
  show "findPathsToAncestorDFS g start start = [[start]]"
    by (simp add: findPathsToAncestorDFS_def)
  assume "target \<notin> closure g start"
  then have "simplePaths g start target = {}" using simplePaths_reach by blast
  then show "findPathsToAncestorDFS g start target = []"
    using findPaths_simplePaths[of g start target] by simp
qed

theorem C7_simple_paths_witness:
  "''a'' \<notin> closure pedigreeSiblings ''dam'' \<and> findPathsToAncestorDFS pedigreeSiblings ''dam'' ''a'' = []
   \<and> set (findPathsToAncestorDFS pedigreeSiblings ''a'' ''sire'') = simplePaths pedigreeSiblings ''a'' ''sire''
   \<and> findPathsToAncestorDFS pedigreeSiblings ''a'' ''sire'' = [[''a'', ''sire'']]"
proof -
  have n: "''a'' \<notin> closure pedigreeSiblings ''dam''" by (simp add: closure_siblings)
  have p: "findPathsToAncestorDFS pedigreeSiblings ''a'' ''sire'' = [[''a'', ''sire'']]"
    by (simp add: pedigreeSiblings_def engine_ev cong: evcong)
  from C7_simple_paths[of pedigreeSiblings "''dam''" "''a''"] n
    C7_simple_paths[of pedigreeSiblings "''a''" "''sire''"] p
  show ?thesis by simp
qed



text \<open>
  C9.  Strict pairing: the result of a batch is the concatenation of the results of the
  calls with each partner record alone, so the tuple reported for a partner depends on
  the cow's record and that partner's record only, whatever the other partner records
  are.
\<close>

theorem C9_strict_pairing_isolation:
  assumes "calculateBreedingInbreeding (Some cow) (Some (before @ partner # after)) = Inr rs"
  shows "\<exists>r1 rp r2.
           calculateBreedingInbreeding (Some cow) (Some [partner]) = Inr rp
         \<and> calculateBreedingInbreeding (Some cow) (Some before) = Inr r1
         \<and> calculateBreedingInbreeding (Some cow) (Some after) = Inr r2
         \<and> rs = r1 @ rp @ r2"
proof (cases "truthy (jsOr (sId cow) (sid cow))")
  case False
  with assms show ?thesis by (simp add: calculateBreedingInbreeding_def)
next
  case True
  with assms have loop: "pairLoop cow (before @ [partner] @ after) [] = Inr rs"
    by (simp add: calculateBreedingInbreeding_def)
  then obtain r1 r23 where r1: "pairLoop cow before [] = Inr r1"
    and r23: "pairLoop cow ([partner] @ after) [] = Inr r23" and rs: "rs = r1 @ r23"
    unfolding pairLoop_append[of cow before] by (auto split: sum.splits)
  from r23 obtain rp r2 where rp: "pairLoop cow [partner] [] = Inr rp"
    and r2: "pairLoop cow after [] = Inr r2" and r23': "r23 = rp @ r2"
    unfolding pairLoop_append[of cow "[partner]"] by (auto split: sum.splits)
  have "calculateBreedingInbreeding (Some cow) (Some [partner]) = Inr rp"
    using True rp by (simp add: calculateBreedingInbreeding_def)
  moreover have "calculateBreedingInbreeding (Some cow) (Some before) = Inr r1"
    using True r1 by (cases before) (simp_all add: calculateBreedingInbreeding_def)
  moreover have "calculateBreedingInbreeding (Some cow) (Some after) = Inr r2"
    using True r2 by (cases after) (simp_all add: calculateBreedingInbreeding_def)
  ultimately show ?thesis using rs r23' by simp
qed

theorem C9_strict_pairing_isolation_witness:
  "\<exists>r1 rp r2.
      calculateBreedingInbreeding (Some cowBackcross) (Some [bullBackcross]) = Inr rp
    \<and> calculateBreedingInbreeding (Some cowBackcross) (Some [bullPlain]) = Inr r1
    \<and> calculateBreedingInbreeding (Some cowBackcross) (Some []) = Inr r2
    \<and> [\<lparr>bullId = ''D'', cowId = ''C'', inbreedingCoefficient = 0\<rparr>,
        \<lparr>bullId = ''B'', cowId = ''C'', inbreedingCoefficient = 19/16\<rparr>] = r1 @ rp @ r2"
  using C9_strict_pairing_isolation[of cowBackcross "[bullPlain]" bullBackcross "[]"] batch_two
  by simp

text \<open>
  C10.  Pairing an individual with itself is said to return at least \<open>0.5\<close>.  The
  calculator without memoization does, on every pedigree (lemma \<open>self_pairing_v6\<close>), and
  so does a fresh calculator with the caches when the identifier contains no hyphen
  (lemma \<open>cached_self_pairing\<close>).  The calculator with the path cache does not for the
  identifier \<open>'b->b'\<close> of an acyclic pedigree: the paths from \<open>'b'\<close> to \<open>'b->b->b'\<close> were
  stored under the key \<open>'b->b->b->b'\<close> while the inbreeding of \<open>'b->b'\<close> was computed,
  and the lookup of the paths from \<open>'b->b'\<close> to itself finds them instead of the one-node
  path.  The entry point reports \<open>29/64\<close> for the pair; the calculator without
  memoization reports \<open>15/16\<close> for the same records.
\<close>

theorem C10_self_pairing_path_key_collision:
  "loadPedigreeFromJson False [] [cowSelf, cowSelf] = Inr pedigreeSelf
   \<and> acyclic (parentEdges pedigreeSelf)
   \<and> pathKey ''b'' ''b->b->b'' = pathKey ''b->b'' ''b->b''
   \<and> returnsValue (calculateOffspringInbreedingC codeUnitCompare True pedigreeSelf 4 newCalculator
        (Some ''b->b'') (Some ''b->b'')) (29/64)
   \<and> calculateBreedingInbreedingShared codeUnitCompare 4 (Some cowSelf) (Some [cowSelf])
       = Some (Inr [\<lparr>bullId = ''b->b'', cowId = ''b->b'', inbreedingCoefficient = 29/64\<rparr>])
   \<and> \<not> (1/2 \<le> inbreedingCoefficient \<lparr>bullId = ''b->b'', cowId = ''b->b'', inbreedingCoefficient = 29/64\<rparr>)
   \<and> calculateOffspringInbreeding pedigreeSelf {} (Some ''b->b'') (Some ''b->b'') = 15/16"
  by (simp add: load_self self_acyclic self_key self_cached shared_self self_uncached)

end
